theory Spec2Isabelle
  imports Main "HOL-Library.AList"
begin

section \<open>Configuration trees\<close>

text \<open>
  The operator works on untyped trees, Go's \<^verbatim>\<open>interface{}\<close>: \<^verbatim>\<open>nil\<close>, a scalar
  (string, number, boolean), the empty struct \<^verbatim>\<open>struct{}{}\<close> that the operator stores as a
  placeholder, a \<^verbatim>\<open>map[string]interface{}\<close> or a \<^verbatim>\<open>[]interface{}\<close>.

  A Go map is an association list here. \<^verbatim>\<open>m[k]\<close> is \<open>mget m k\<close> (\<open>VNil\<close> for a missing
  key, as in Go), \<^verbatim>\<open>m[k] = v\<close> is \<open>AList.update k v m\<close>, \<^verbatim>\<open>delete(m, k)\<close> is
  \<open>AList.delete k m\<close>, and \<^verbatim>\<open>for k := range m\<close> visits the entries in list order.
  The keys of a Go map are distinct; \<open>wf\<close> says so for a whole tree.
  Trees are values: two trees share no object, as after the decoding or the deep copy that
  produces them.
\<close>

datatype val =
    VNil
  | VStr string
  | VNum int
  | VBool bool
  | VStruct
  | VMap "(string \<times> val) list"
  | VList "val list"

type_synonym gomap = "(string \<times> val) list"

definition mget :: "gomap \<Rightarrow> string \<Rightarrow> val" where
  "mget m k = (case map_of m k of None \<Rightarrow> VNil | Some v \<Rightarrow> v)"

definition hasKey :: "('k \<times> 'v) list \<Rightarrow> 'k \<Rightarrow> bool" where
  "hasKey m k = (map_of m k \<noteq> None)"

fun wf :: "val \<Rightarrow> bool" where
  "wf (VMap m) = (distinct (map fst m) \<and> list_all (\<lambda>kv. wf (snd kv)) m)"
| "wf (VList xs) = list_all wf xs"
| "wf _ = True"

text \<open>
  \<^verbatim>\<open>reflect.DeepEqual\<close> on such trees: two maps are deeply equal when they have the same
  length and every key of the first is a key of the second with a deeply equal value; two
  slices when they have the same length and deeply equal elements; other values when they
  are the same value.
\<close>

fun DeepEqual :: "val \<Rightarrow> val \<Rightarrow> bool" where
  "DeepEqual (VMap m1) (VMap m2) =
     (length m1 = length m2 \<and>
      list_all (\<lambda>kv. case map_of m2 (fst kv) of
                        None \<Rightarrow> False
                      | Some w \<Rightarrow> DeepEqual (snd kv) w) m1)"
| "DeepEqual (VList xs) (VList ys) =
     (length xs = length ys \<and> list_all2 DeepEqual xs ys)"
| "DeepEqual a b = (a = b)"

datatype error = Panic

section \<open>Controller modes\<close>

definition nonDefaultProfileController :: "(string \<times> int) list" where
  "nonDefaultProfileController = [(''turbo'', 0), (''turbonomic'', 0), (''vpa'', 1)]"

fun mergeProfileController ::
  "(string \<times> string) list \<Rightarrow> (string \<times> string) list \<Rightarrow> (string \<times> string) list" where
  "mergeProfileController serviceControllerMappingSummary [] = serviceControllerMappingSummary"
| "mergeProfileController serviceControllerMappingSummary ((operator, profileController) # rest) =
     mergeProfileController
       (case map_of serviceControllerMappingSummary operator of
          Some summaryProfileController \<Rightarrow>
            if hasKey nonDefaultProfileController profileController then
              if \<not> hasKey nonDefaultProfileController summaryProfileController then
                AList.update operator profileController serviceControllerMappingSummary
              else serviceControllerMappingSummary
            else serviceControllerMappingSummary
        | None \<Rightarrow> AList.update operator profileController serviceControllerMappingSummary)
       rest"

section \<open>Loops and in-place updates\<close>

text \<open>
  A runtime panic (a failed type assertion, an index out of range) is the error value; a
  loop stops at the first one.
\<close>

fun foldE :: "('a \<Rightarrow> 's \<Rightarrow> error + 's) \<Rightarrow> 'a list \<Rightarrow> 's \<Rightarrow> error + 's" where
  "foldE f [] s = Inr s"
| "foldE f (x # xs) s = (case f x s of Inl e \<Rightarrow> Inl e | Inr s' \<Rightarrow> foldE f xs s')"

lemma foldE_cong [fundef_cong]:
  "xs = ys \<Longrightarrow> s = t \<Longrightarrow> (\<And>x u. x \<in> set ys \<Longrightarrow> f x u = g x u) \<Longrightarrow> foldE f xs s = foldE g ys t"
  by (induction ys arbitrary: xs s t) (auto split: sum.splits)

text \<open>
  \<^verbatim>\<open>finalMap[key].(map[string]interface{})\<close> handed to a callee that mutates it: the
  assertion panics unless the value is a map, and the caller's map sees the callee's
  changes.
\<close>

definition atMap :: "gomap \<Rightarrow> string \<Rightarrow> (gomap \<Rightarrow> error + gomap) \<Rightarrow> error + gomap" where
  "atMap finalMap key f =
     (case mget finalMap key of
        VMap inner \<Rightarrow>
          (case f inner of
             Inl e \<Rightarrow> Inl e
           | Inr inner' \<Rightarrow> Inr (AList.update key (VMap inner') finalMap))
      | _ \<Rightarrow> Inl Panic)"

lemma atMap_cong [fundef_cong]:
  "m = m' \<Longrightarrow> k = k' \<Longrightarrow> (\<And>inner. f inner = g inner) \<Longrightarrow> atMap m k f = atMap m' k' g"
  by (simp add: atMap_def split: val.splits)

text \<open>
  \<^verbatim>\<open>finalMap[key].([]interface{})[i].(map[string]interface{})\<close> handed to a callee that
  mutates it.
\<close>

definition atListMap ::
  "gomap \<Rightarrow> string \<Rightarrow> nat \<Rightarrow> (gomap \<Rightarrow> error + gomap) \<Rightarrow> error + gomap" where
  "atListMap finalMap key i f =
     (case mget finalMap key of
        VList fl \<Rightarrow>
          if i < length fl then
            (case fl ! i of
               VMap fe \<Rightarrow>
                 (case f fe of
                    Inl e \<Rightarrow> Inl e
                  | Inr fe' \<Rightarrow> Inr (AList.update key (VList (fl[i := VMap fe'])) finalMap))
             | _ \<Rightarrow> Inl Panic)
          else Inl Panic
      | _ \<Rightarrow> Inl Panic)"

lemma atListMap_cong [fundef_cong]:
  "m = m' \<Longrightarrow> k = k' \<Longrightarrow> i = i' \<Longrightarrow> (\<And>fe. f fe = g fe) \<Longrightarrow>
   atListMap m k i f = atListMap m' k' i' g"
  by (simp add: atListMap_def split: val.splits)

text \<open>\<^verbatim>\<open>finalMap[key] = append(finalMap[key].([]interface{}), v)\<close>\<close>

definition appendAt :: "gomap \<Rightarrow> string \<Rightarrow> val \<Rightarrow> error + gomap" where
  "appendAt finalMap key v =
     (case mget finalMap key of
        VList fl \<Rightarrow> Inr (AList.update key (VList (fl @ [v])) finalMap)
      | _ \<Rightarrow> Inl Panic)"

section \<open>Tree merge primitives\<close>

text \<open>
  \<^verbatim>\<open>rules.ResourceComparison\<close> lives in another package; it is a parameter of the
  functions that call it. It returns the larger and the smaller of two values.
\<close>

type_synonym comparator = "val \<Rightarrow> val \<Rightarrow> val \<times> val"

text \<open>
  Modelled from the spec: \<^verbatim>\<open>rules.ResourceComparison\<close>, the numeric comparator of package
  \<^verbatim>\<open>rules\<close>, which is not among the sources. The spec gives its contract only:
  \<^verbatim>\<open>Compare(a, b)\<close> returns (max, min) over plain numbers and resource-quantity strings such
  as \<^verbatim>\<open>"500m"\<close>. The model reads a number or a string of decimal digits as whole units and
  a string of digits followed by \<^verbatim>\<open>m\<close> as thousandths, and returns the two arguments
  with the larger first. It instantiates the comparator parameter in examples only; the
  theorems hold for every comparator, under the hypotheses they state.
\<close>

definition digit :: "char \<Rightarrow> int option" where
  "digit = map_of (zip ''0123456789'' [0, 1, 2, 3, 4, 5, 6, 7, 8, 9])"

fun digits :: "int \<Rightarrow> string \<Rightarrow> int option" where
  "digits acc [] = Some acc"
| "digits acc (c # cs) =
     (case digit c of None \<Rightarrow> None | Some d \<Rightarrow> digits (10 * acc + d) cs)"

definition quantity :: "val \<Rightarrow> int option" where
  "quantity v =
     (case v of
        VNum n \<Rightarrow> Some (1000 * n)
      | VStr s \<Rightarrow>
          if s = [] then None
          else if last s = CHR ''m'' then
            (if butlast s = [] then None else digits 0 (butlast s))
          else map_option (\<lambda>n. 1000 * n) (digits 0 s)
      | _ \<Rightarrow> None)"

definition ResourceComparison :: comparator where
  "ResourceComparison a b =
     (case quantity a of
        None \<Rightarrow> (a, b)
      | Some x \<Rightarrow>
          (case quantity b of
             None \<Rightarrow> (a, b)
           | Some y \<Rightarrow> if x < y then (b, a) else (a, b)))"

definition comparableKeys :: "(string \<times> bool) list" where
  "comparableKeys =
     [(''replicas'', True), (''cpu'', True), (''memory'', True), (''profile'', True),
      (''fipsEnabled'', True), (''fips_enabled'', True), (''instances'', True),
      (''max_connections'', True), (''shared_buffers'', True)]"

lemma size_entry [termination_simp]:
  "(k, v) \<in> set m \<Longrightarrow> size v < Suc (size_list (size_prod (\<lambda>_. 0) size) m)"
  by (induction m) auto

lemma size_elem [termination_simp]:
  "v \<in> set xs \<Longrightarrow> size v < Suc (size_list size xs)"
  by (induction xs) auto

lemma size_enumerate [termination_simp]:
  "(i, v) \<in> set (enumerate n xs) \<Longrightarrow> size v < Suc (size_list size xs)"
  by (auto simp: in_set_enumerate_eq intro: size_elem)

lemma size_enumerate_entry:
  "(i, VMap m) \<in> set (enumerate n xs) \<Longrightarrow> (k, v) \<in> set m \<Longrightarrow>
   size v < Suc (size_list size xs)"
  using size_enumerate[of i "VMap m" n xs] size_entry[of k v m] by simp

function filterChangedMapWithRules :: "string \<Rightarrow> val \<Rightarrow> val \<Rightarrow> gomap \<Rightarrow> error + gomap" where
  "filterChangedMapWithRules key changedMap rules finalMap =
     (case changedMap of
        VMap changedMapRef \<Rightarrow>
          if rules = VNil then Inr (AList.delete key finalMap)
          else
            (case rules of
               VMap rulesRef \<Rightarrow>
                 foldE (\<lambda>(newKey, cv) fm.
                     atMap fm key (\<lambda>inner.
                       filterChangedMapWithRules newKey cv (mget rulesRef newKey) inner))
                   changedMapRef finalMap
             | _ \<Rightarrow> Inr (AList.delete key finalMap))
      | _ \<Rightarrow>
          if rules = VNil \<and> changedMap \<noteq> VNil then Inr (AList.delete key finalMap)
          else Inr finalMap)"
  by pat_completeness auto
termination
  by (relation "measure (\<lambda>(key, changedMap, rules, finalMap). size changedMap)")
     (auto simp: size_entry)

function mergeChangedMap ::
  "comparator \<Rightarrow> string \<Rightarrow> val \<Rightarrow> val \<Rightarrow> gomap \<Rightarrow> bool \<Rightarrow> error + gomap" where
  "mergeChangedMap rc key defaultMap changedMap finalMap directAssign =
     (if \<not> DeepEqual defaultMap changedMap then
        (case defaultMap of
           VMap defaultMapRef \<Rightarrow>
             if changedMap = VNil then Inr (AList.update key defaultMap finalMap)
             else
               (case changedMap of
                  VMap changedMapRef \<Rightarrow>
                    foldE (\<lambda>(newKey, dv) fm.
                        atMap fm key (\<lambda>inner.
                          mergeChangedMap rc newKey dv (mget changedMapRef newKey) inner
                            directAssign))
                      defaultMapRef finalMap
                | _ \<Rightarrow> Inr finalMap)
         | VList defaultMapRef \<Rightarrow>
             if changedMap = VNil then Inr (AList.update key defaultMap finalMap)
             else
               (case changedMap of
                  VList changedMapRef \<Rightarrow>
                    foldE (\<lambda>(i, di) fm.
                        case di of
                          VMap dim \<Rightarrow>
                            if length changedMapRef \<le> i then appendAt fm key di
                            else
                              foldE (\<lambda>(newKey, dv) fm'.
                                  case changedMapRef ! i of
                                    VMap cim \<Rightarrow>
                                      atListMap fm' key i (\<lambda>fe.
                                        mergeChangedMap rc newKey dv (mget cim newKey) fe
                                          directAssign)
                                  | _ \<Rightarrow> Inl Panic)
                                dim fm
                        | _ \<Rightarrow> Inr fm)
                      (enumerate 0 defaultMapRef) finalMap
                | _ \<Rightarrow> Inr finalMap)
         | _ \<Rightarrow>
             if changedMap = VNil then Inr (AList.update key defaultMap finalMap)
             else if hasKey comparableKeys key then
               if directAssign then Inr (AList.update key changedMap finalMap)
               else Inr (AList.update key (fst (rc defaultMap changedMap)) finalMap)
             else Inr finalMap)
      else Inr finalMap)"
  by pat_completeness auto
termination
  by (relation "measure (\<lambda>(rc, key, defaultMap, changedMap, finalMap, directAssign). size defaultMap)")
     (auto simp: size_entry size_enumerate_entry)

text \<open>\<^verbatim>\<open>mergeCRsIntoOperandConfig\<close>: prune \<open>changedMap\<close> by the rules unless \<open>overwrite\<close>,
  then merge the default into it, key by key of the default.\<close>

definition mergeCRsIntoOperandConfig ::
  "comparator \<Rightarrow> gomap \<Rightarrow> gomap \<Rightarrow> gomap \<Rightarrow> bool \<Rightarrow> bool \<Rightarrow> error + gomap" where
  "mergeCRsIntoOperandConfig rc defaultMap changedMap rules overwrite directAssign =
     (case (if \<not> overwrite then
              foldE (\<lambda>key cm. filterChangedMapWithRules key (mget cm key) (mget rules key) cm)
                (map fst changedMap) changedMap
            else Inr changedMap) of
        Inl e \<Rightarrow> Inl e
      | Inr changedMap' \<Rightarrow>
          foldE (\<lambda>key cm.
              if DeepEqual (mget defaultMap key) (mget cm key) then Inr cm
              else mergeChangedMap rc key (mget defaultMap key) (mget cm key) cm directAssign)
            (map fst defaultMap) changedMap')"

definition mergeCRsIntoOperandConfigWithDefaultRules ::
  "comparator \<Rightarrow> gomap \<Rightarrow> gomap \<Rightarrow> bool \<Rightarrow> error + gomap" where
  "mergeCRsIntoOperandConfigWithDefaultRules rc defaultMap changedMap directAssign =
     foldE (\<lambda>key cm.
         if DeepEqual (mget defaultMap key) (mget cm key) then Inr cm
         else mergeChangedMap rc key (mget defaultMap key) (mget cm key) cm directAssign)
       (map fst defaultMap) changedMap"

text \<open>\<^verbatim>\<open>type Extreme string\<close> with the constants \<^verbatim>\<open>Max\<close> and \<^verbatim>\<open>Min\<close>.\<close>

type_synonym Extreme = string

definition ExtremeMax :: Extreme where
  "ExtremeMax = ''max''"

definition ExtremeMin :: Extreme where
  "ExtremeMin = ''min''"

function mergeChangedMapWithExtremeSize ::
  "comparator \<Rightarrow> string \<Rightarrow> val \<Rightarrow> val \<Rightarrow> gomap \<Rightarrow> Extreme \<Rightarrow> error + gomap" where
  "mergeChangedMapWithExtremeSize rc key defaultMap changedMap finalMap extreme =
     (if \<not> DeepEqual defaultMap changedMap then
        (case changedMap of
           VMap changedMapRef \<Rightarrow>
             (case defaultMap of
                VMap defaultMapRef \<Rightarrow>
                  foldE (\<lambda>(newKey, cv) fm.
                      atMap fm key (\<lambda>inner.
                        mergeChangedMapWithExtremeSize rc newKey (mget defaultMapRef newKey) cv
                          inner extreme))
                    changedMapRef finalMap
              | _ \<Rightarrow> Inr finalMap)
         | VList changedMapRef \<Rightarrow>
             (case defaultMap of
                VList defaultMapRef \<Rightarrow>
                  foldE (\<lambda>(i, ci) fm.
                      case ci of
                        VMap cim \<Rightarrow>
                          foldE (\<lambda>(newKey, cv) fm'.
                              if i < length defaultMapRef then
                                (case defaultMapRef ! i of
                                   VMap dim \<Rightarrow>
                                     atListMap fm' key i (\<lambda>fe.
                                       mergeChangedMapWithExtremeSize rc newKey (mget dim newKey)
                                         cv fe extreme)
                                 | _ \<Rightarrow> Inr fm')
                              else Inl Panic)
                            cim fm
                      | _ \<Rightarrow> Inl Panic)
                    (enumerate 0 changedMapRef) finalMap
              | _ \<Rightarrow> Inr finalMap)
         | _ \<Rightarrow>
             if changedMap \<noteq> VNil \<and> defaultMap \<noteq> VNil then
               if extreme = ExtremeMax then
                 Inr (AList.update key (fst (rc defaultMap changedMap)) finalMap)
               else if extreme = ExtremeMin then
                 Inr (AList.update key (snd (rc defaultMap changedMap)) finalMap)
               else Inr finalMap
             else if changedMap \<noteq> VNil \<and> defaultMap = VNil then
               Inr (AList.update key changedMap finalMap)
             else Inr finalMap)
      else Inr finalMap)"
  by pat_completeness auto
termination
  by (relation "measure (\<lambda>(rc, key, defaultMap, changedMap, finalMap, extreme). size changedMap)")
     (auto simp: size_entry size_enumerate_entry)

text \<open>\<^verbatim>\<open>shrinkSize\<close> walks the keys of \<open>defaultMap\<close> and returns \<open>defaultMap\<close>, updated.\<close>

definition shrinkSize :: "comparator \<Rightarrow> gomap \<Rightarrow> gomap \<Rightarrow> Extreme \<Rightarrow> error + gomap" where
  "shrinkSize rc defaultMap changedMap extreme =
     foldE (\<lambda>key dm.
         if DeepEqual (mget dm key) (mget changedMap key) then Inr dm
         else mergeChangedMapWithExtremeSize rc key (mget dm key) (mget changedMap key) dm extreme)
       (map fst defaultMap) defaultMap"

function deepMergeTwoMaps :: "string \<Rightarrow> val \<Rightarrow> val \<Rightarrow> gomap \<Rightarrow> error + gomap" where
  "deepMergeTwoMaps key defaultMap changedMap finalMap =
     (case defaultMap of
        VMap defaultMapRef \<Rightarrow>
          if changedMap = VNil then Inr (AList.update key defaultMap finalMap)
          else
            (case changedMap of
               VMap changedMapRef \<Rightarrow>
                 foldE (\<lambda>(newKey, dv) fm.
                     atMap fm key (\<lambda>inner.
                       deepMergeTwoMaps newKey dv (mget changedMapRef newKey) inner))
                   defaultMapRef finalMap
             | _ \<Rightarrow> Inr finalMap)
      | VList defaultMapRef \<Rightarrow>
          if changedMap = VNil then Inr (AList.update key defaultMap finalMap)
          else
            (case changedMap of
               VList changedMapRef \<Rightarrow>
                 foldE (\<lambda>(i, di) fm.
                     case di of
                       VMap dim \<Rightarrow>
                         if length changedMapRef \<le> i then appendAt fm key di
                         else
                           foldE (\<lambda>(newKey, dv) fm'.
                               case changedMapRef ! i of
                                 VMap cim \<Rightarrow>
                                   atListMap fm' key i (\<lambda>fe.
                                     deepMergeTwoMaps newKey dv (mget cim newKey) fe)
                               | _ \<Rightarrow> Inl Panic)
                             dim fm
                     | _ \<Rightarrow> Inr fm)
                   (enumerate 0 defaultMapRef) finalMap
             | _ \<Rightarrow> Inr finalMap)
      | _ \<Rightarrow>
          if changedMap = VNil then Inr (AList.update key defaultMap finalMap)
          else Inr finalMap)"
  by pat_completeness auto
termination
  by (relation "measure (\<lambda>(key, defaultMap, changedMap, finalMap). size defaultMap)")
     (auto simp: size_entry size_enumerate_entry)

definition mergeSizeProfile :: "gomap \<Rightarrow> gomap \<Rightarrow> error + gomap" where
  "mergeSizeProfile defaultMap changedMap =
     foldE (\<lambda>key cm.
         if DeepEqual (mget defaultMap key) (mget cm key) then Inr cm
         else deepMergeTwoMaps key (mget defaultMap key) (mget cm key) cm)
       (map fst defaultMap) changedMap"

section \<open>Reset of the fields an independent controller owns\<close>

definition requiredResetKeys :: "(string \<times> bool) list" where
  "requiredResetKeys = [(''replicas'', True), (''cpu'', True), (''memory'', True)]"

text \<open>\<open>rulesForCR\<close> is a Go map that may be the nil map: \<open>None\<close>.\<close>

function resetChangedMap :: "string \<Rightarrow> val \<Rightarrow> gomap option \<Rightarrow> gomap \<Rightarrow> error + gomap" where
  "resetChangedMap key changedMap rulesForCR finalMap =
     (let rules = (case rulesForCR of None \<Rightarrow> VNil | Some r \<Rightarrow> mget r key) in
      if rules \<noteq> VNil then
        (case changedMap of
           VMap changedMapRef \<Rightarrow>
             (case rules of
                VMap rulesRef \<Rightarrow>
                  foldE (\<lambda>(newKey, cv) fm.
                      atMap fm key (\<lambda>inner.
                        resetChangedMap newKey cv (Some rulesRef) inner))
                    changedMapRef finalMap
              | _ \<Rightarrow> Inr finalMap)
         | _ \<Rightarrow>
             if hasKey requiredResetKeys key then Inr (AList.delete key finalMap)
             else Inr finalMap)
      else Inr finalMap)"
  by pat_completeness auto
termination
  by (relation "measure (\<lambda>(key, changedMap, rulesForCR, finalMap). size changedMap)")
     (auto simp: size_entry)

text \<open>
  The rules of one CR kind, as \<^verbatim>\<open>resetResourceInTemplate\<close>, \<^verbatim>\<open>mergeCSCRs\<close> and
  \<^verbatim>\<open>updateOperandConfig\<close> read them:
  \<^verbatim>\<open>rules != nil && rules["spec"] != nil && rules["spec"][cr] != nil\<close>, then
  \<^verbatim>\<open>rules["spec"][cr].(map[string]interface{})\<close>, every step through a type assertion.
\<close>

definition ruleForCR :: "val \<Rightarrow> string \<Rightarrow> error + gomap option" where
  "ruleForCR rules cr =
     (if rules = VNil then Inr None
      else
        (case rules of
           VMap r \<Rightarrow>
             if mget r ''spec'' = VNil then Inr None
             else
               (case mget r ''spec'' of
                  VMap sp \<Rightarrow>
                    if mget sp cr = VNil then Inr None
                    else (case mget sp cr of VMap x \<Rightarrow> Inr (Some x) | _ \<Rightarrow> Inl Panic)
                | _ \<Rightarrow> Inl Panic)
         | _ \<Rightarrow> Inl Panic))"

definition resetResourceInTemplate :: "gomap \<Rightarrow> string \<Rightarrow> val \<Rightarrow> error + gomap" where
  "resetResourceInTemplate changedMap cr rules =
     (case ruleForCR rules cr of
        Inl e \<Rightarrow> Inl e
      | Inr rulesForCR \<Rightarrow>
          foldE (\<lambda>key cm. resetChangedMap key (mget cm key) rulesForCR cm)
            (map fst changedMap) changedMap)"

text \<open>
  The reset as a specification, on the entries of a map in their order: a field governed by
  the rules (the rules have a non-nil value under its key) is dropped when it is named
  \<open>replicas\<close>, \<open>cpu\<close> or \<open>memory\<close> and its value is not a map; a map under a governed key
  is kept and, when its rule is a map too, reset in turn under that rule; every other field
  is kept as it is.
\<close>

function (sequential) resetFields :: "gomap \<Rightarrow> gomap \<Rightarrow> gomap" where
  "resetFields rules [] = []"
| "resetFields rules ((k, VMap m) # rest) =
     (k, (case mget rules k of VMap r \<Rightarrow> VMap (resetFields r m) | _ \<Rightarrow> VMap m))
       # resetFields rules rest"
| "resetFields rules ((k, v) # rest) =
     (if mget rules k \<noteq> VNil \<and> (k = ''replicas'' \<or> k = ''cpu'' \<or> k = ''memory'')
      then resetFields rules rest
      else (k, v) # resetFields rules rest)"
  by pat_completeness auto
termination
  by (relation "measure (\<lambda>(rules, es). size (VMap es))") auto

section \<open>Resource identity index\<close>

definition bindE :: "error + 'a \<Rightarrow> ('a \<Rightarrow> error + 'b) \<Rightarrow> error + 'b" where
  "bindE x f = (case x of Inl e \<Rightarrow> Inl e | Inr a \<Rightarrow> f a)"

lemma bindE_cong [fundef_cong]:
  "x = y \<Longrightarrow> (\<And>a. y = Inr a \<Longrightarrow> f a = g a) \<Longrightarrow> bindE x f = bindE y g"
  by (auto simp: bindE_def split: sum.splits)


text \<open>\<^verbatim>\<open>m[f].(string)\<close>\<close>

definition asString :: "val \<Rightarrow> error + string" where
  "asString v = (case v of VStr s \<Rightarrow> Inr s | _ \<Rightarrow> Inl Panic)"

fun getItemByGVKNameNamespace ::
  "val list \<Rightarrow> string \<Rightarrow> string \<Rightarrow> string \<Rightarrow> string \<Rightarrow> string \<Rightarrow> error + val" where
  "getItemByGVKNameNamespace [] opconNs apiVersion kind name namespace = Inr VNil"
| "getItemByGVKNameNamespace (opResource # rest) opconNs apiVersion kind name namespace =
     (case opResource of
        VMap r \<Rightarrow>
          bindE (asString (mget r ''apiVersion'')) (\<lambda>a.
            if a = apiVersion then
              bindE (asString (mget r ''kind'')) (\<lambda>k.
                if k = kind then
                  bindE (asString (mget r ''name'')) (\<lambda>n.
                    if n = name then
                      if hasKey r ''namespace'' then
                        bindE (asString (mget r ''namespace'')) (\<lambda>opResNs.
                          if opResNs = namespace then Inr opResource
                          else getItemByGVKNameNamespace rest opconNs apiVersion kind name
                                 namespace)
                      else if opconNs = namespace then Inr opResource
                      else getItemByGVKNameNamespace rest opconNs apiVersion kind name namespace
                    else getItemByGVKNameNamespace rest opconNs apiVersion kind name namespace)
                else getItemByGVKNameNamespace rest opconNs apiVersion kind name namespace)
            else getItemByGVKNameNamespace rest opconNs apiVersion kind name namespace)
      | _ \<Rightarrow> Inl Panic)"

section \<open>Resource overrides in a reconcile\<close>

definition isOpResourceExists :: "val \<Rightarrow> error + bool" where
  "isOpResourceExists opResource =
     (case opResource of
        VMap r \<Rightarrow>
          if mget r ''data'' = VNil then Inr False
          else
            (case mget r ''data'' of
               VMap d \<Rightarrow>
                 if mget d ''spec'' = VNil then Inr False
                 else
                   (case mget d ''spec'' of
                      VMap s \<Rightarrow> if mget s ''resources'' = VNil then Inr False else Inr True
                    | _ \<Rightarrow> Inl Panic)
             | _ \<Rightarrow> Inl Panic)
      | _ \<Rightarrow> Inl Panic)"

text \<open>
  \<^verbatim>\<open>newResource["data"]["spec"]["resources"]["limits"]["cpu"] = struct{}{}\<close>, every step
  through \<^verbatim>\<open>.(map[string]interface{})\<close>.
\<close>

definition clearLimitsCpu :: "val \<Rightarrow> error + val" where
  "clearLimitsCpu newResource =
     (case newResource of
        VMap r \<Rightarrow>
          bindE (atMap r ''data'' (\<lambda>d.
                   atMap d ''spec'' (\<lambda>s.
                     atMap s ''resources'' (\<lambda>rs.
                       atMap rs ''limits'' (\<lambda>l.
                         Inr (AList.update ''cpu'' VStruct l))))))
            (\<lambda>r'. Inr (VMap r'))
      | _ \<Rightarrow> Inl Panic)"

text \<open>
  The block that \<^verbatim>\<open>updateOperandConfig\<close>, \<^verbatim>\<open>mergeCSCRs\<close> and \<^verbatim>\<open>getExtremeizes\<close> run on
  a matched override before they merge it.
\<close>

definition resetNewResource :: "string \<Rightarrow> val \<Rightarrow> error + val" where
  "resetNewResource serviceController newResource =
     (if hasKey nonDefaultProfileController serviceController then
        bindE (isOpResourceExists newResource) (\<lambda>exists.
          if exists then clearLimitsCpu newResource else Inr newResource)
      else Inr newResource)"

text \<open>A line of \<^verbatim>\<open>klog.Warningf\<close>: the resource skipped, as the message names it.\<close>

datatype logline = SkipWarning string string string string

text \<open>\<^verbatim>\<open>var x string; if m[f] != nil { x = m[f].(string) }\<close>\<close>

definition strField :: "gomap \<Rightarrow> string \<Rightarrow> error + string" where
  "strField m f = (if mget m f \<noteq> VNil then asString (mget m f) else Inr [])"

text \<open>
  One turn of the loop over the resources of an operand, taken alone, as a function of the
  entry and of the sequence searched: the entry to store at the index and the warnings
  logged. \<^verbatim>\<open>updateOperandConfig\<close> runs it on the resources of the canonical service
  against the resources of the tenant's configuration with \<open>directAssign\<close> true;
  \<^verbatim>\<open>mergeCSCRs\<close> runs the same statements on the resources of a tenant's operator against
  those of the summary with \<open>directAssign\<close> false.
\<close>

definition mergeResource ::
  "comparator \<Rightarrow> string \<Rightarrow> string \<Rightarrow> val \<Rightarrow> bool \<Rightarrow> val \<Rightarrow> error + (val \<times> logline list)" where
  "mergeResource rc opconNs serviceController candidates directAssign opResource =
     (case opResource of
        VMap r \<Rightarrow>
          bindE (strField r ''apiVersion'') (\<lambda>apiVersion.
          bindE (strField r ''kind'') (\<lambda>kind.
          bindE (strField r ''name'') (\<lambda>name.
          bindE (strField r ''namespace'') (\<lambda>namespace.
            if apiVersion = [] \<or> kind = [] \<or> name = [] then
              Inr (opResource, [SkipWarning apiVersion kind name namespace])
            else
              let namespace = (if namespace = [] then opconNs else namespace) in
              if candidates = VNil then Inr (opResource, [])
              else
                (case candidates of
                   VList cs \<Rightarrow>
                     bindE (getItemByGVKNameNamespace cs opconNs apiVersion kind name namespace)
                       (\<lambda>newResource.
                          if newResource \<noteq> VNil then
                            bindE (resetNewResource serviceController newResource) (\<lambda>nr.
                              case nr of
                                VMap n \<Rightarrow>
                                  bindE (mergeCRsIntoOperandConfigWithDefaultRules rc r n
                                           directAssign)
                                    (\<lambda>merged. Inr (VMap merged, []))
                              | _ \<Rightarrow> Inl Panic)
                          else Inr (opResource, []))
                 | _ \<Rightarrow> Inl Panic)))))
      | _ \<Rightarrow> Inl Panic)"

text \<open>
  The loop over the resources of an operand, with the objects it shares. The override that
  a turn finds is merged in place and the same object is stored at the index of the entry:
  a later turn that finds it again merges into it once more, and the entry stored earlier
  changes with it. The sequence searched, \<open>candidates\<close>, is therefore the store that the
  loop threads, and an entry of the result is either the object the loop ranged over or
  the override at a position of that store.

  The position of the item that \<^verbatim>\<open>getItemByGVKNameNamespace\<close> returns: the first item
  that the lookup, run on that item alone, returns.
\<close>

fun indexByGVKNameNamespace ::
  "val list \<Rightarrow> string \<Rightarrow> string \<Rightarrow> string \<Rightarrow> string \<Rightarrow> string \<Rightarrow> error + nat option" where
  "indexByGVKNameNamespace [] opconNs apiVersion kind name namespace = Inr None"
| "indexByGVKNameNamespace (opResource # rest) opconNs apiVersion kind name namespace =
     bindE (getItemByGVKNameNamespace [opResource] opconNs apiVersion kind name namespace)
       (\<lambda>item.
          if item \<noteq> VNil then Inr (Some 0)
          else
            bindE (indexByGVKNameNamespace rest opconNs apiVersion kind name namespace)
              (\<lambda>found. Inr (map_option Suc found)))"

text \<open>What a turn stores at the index of the entry.\<close>

datatype entry = Own val | Override nat

definition resolveEntry :: "val \<Rightarrow> entry \<Rightarrow> val" where
  "resolveEntry candidates e =
     (case e of
        Own v \<Rightarrow> v
      | Override j \<Rightarrow> (case candidates of VList cs \<Rightarrow> cs ! j | _ \<Rightarrow> VNil))"

text \<open>
  One turn of the loop, lines 434 to 473 of \<^verbatim>\<open>updateOperandConfig\<close> and 139 to 175 of
  \<^verbatim>\<open>mergeCSCRs\<close>: it returns the store, the entry for the index and the warnings logged.
\<close>

definition mergeResourceAt ::
  "comparator \<Rightarrow> string \<Rightarrow> string \<Rightarrow> bool \<Rightarrow> val \<Rightarrow> val \<Rightarrow>
   error + (val \<times> entry \<times> logline list)" where
  "mergeResourceAt rc opconNs serviceController directAssign candidates opResource =
     (case opResource of
        VMap r \<Rightarrow>
          bindE (strField r ''apiVersion'') (\<lambda>apiVersion.
          bindE (strField r ''kind'') (\<lambda>kind.
          bindE (strField r ''name'') (\<lambda>name.
          bindE (strField r ''namespace'') (\<lambda>namespace.
            if apiVersion = [] \<or> kind = [] \<or> name = [] then
              Inr (candidates, Own opResource, [SkipWarning apiVersion kind name namespace])
            else
              let namespace = (if namespace = [] then opconNs else namespace) in
              if candidates = VNil then Inr (candidates, Own opResource, [])
              else
                (case candidates of
                   VList cs \<Rightarrow>
                     bindE (indexByGVKNameNamespace cs opconNs apiVersion kind name namespace)
                       (\<lambda>found.
                          case found of
                            None \<Rightarrow> Inr (candidates, Own opResource, [])
                          | Some j \<Rightarrow>
                              bindE (resetNewResource serviceController (cs ! j)) (\<lambda>nr.
                                case nr of
                                  VMap n \<Rightarrow>
                                    bindE (mergeCRsIntoOperandConfigWithDefaultRules rc r n
                                             directAssign)
                                      (\<lambda>merged.
                                         Inr (VList (cs[j := VMap merged]), Override j, []))
                                | _ \<Rightarrow> Inl Panic))
                 | _ \<Rightarrow> Inl Panic)))))
      | _ \<Rightarrow> Inl Panic)"

fun mergeResourcesLoop ::
  "comparator \<Rightarrow> string \<Rightarrow> string \<Rightarrow> bool \<Rightarrow> val \<Rightarrow> val list \<Rightarrow>
   error + (val \<times> entry list \<times> logline list)" where
  "mergeResourcesLoop rc opconNs serviceController directAssign candidates [] =
     Inr (candidates, [], [])"
| "mergeResourcesLoop rc opconNs serviceController directAssign candidates (opResource # rest) =
     bindE (mergeResourceAt rc opconNs serviceController directAssign candidates opResource)
       (\<lambda>(candidates', e, warnings).
          bindE (mergeResourcesLoop rc opconNs serviceController directAssign candidates' rest)
            (\<lambda>(candidates'', es, warnings').
               Inr (candidates'', e # es, warnings @ warnings')))"

text \<open>
  The loop of \<^verbatim>\<open>updateOperandConfig\<close> over \<^verbatim>\<open>opService["resources"]\<close>, the resources of
  the canonical service: the overrides searched are the resources of the tenant's
  configuration, and \<open>directAssign\<close> is true. It returns the sequence stored under
  \<^verbatim>\<open>"resources"\<close>, the tenant's resources as the loop leaves them, and the warnings.
\<close>

definition updateOperandConfig_resources ::
  "comparator \<Rightarrow> string \<Rightarrow> string \<Rightarrow> val \<Rightarrow> val list \<Rightarrow>
   error + (val list \<times> val \<times> logline list)" where
  "updateOperandConfig_resources rc opconNs serviceController newConfigResources opResources =
     bindE (mergeResourcesLoop rc opconNs serviceController True newConfigResources opResources)
       (\<lambda>(candidates, es, warnings).
          Inr (map (resolveEntry candidates) es, candidates, warnings))"

text \<open>
  The loop of \<^verbatim>\<open>mergeCSCRs\<close> over \<^verbatim>\<open>operator["resources"]\<close>, the overrides of a tenant:
  the sequence searched is the resources of the summary, and \<open>directAssign\<close> is false.
\<close>

definition mergeCSCRs_resources ::
  "comparator \<Rightarrow> string \<Rightarrow> string \<Rightarrow> val \<Rightarrow> val list \<Rightarrow>
   error + (val list \<times> val \<times> logline list)" where
  "mergeCSCRs_resources rc opconNs serviceController summaryResources operatorResources =
     bindE (mergeResourcesLoop rc opconNs serviceController False summaryResources
              operatorResources)
       (\<lambda>(candidates, es, warnings).
          Inr (map (resolveEntry candidates) es, candidates, warnings))"

text \<open>
  \<^verbatim>\<open>setResByName\<close>, by which \<^verbatim>\<open>mergeCSCRs\<close> stores the sequence it ranged over as the
  resources of the operator in the summary.
\<close>

fun setResByName :: "val list \<Rightarrow> string \<Rightarrow> val list \<Rightarrow> error + val list" where
  "setResByName [] name resources =
     Inr [VMap [(''name'', VStr name), (''resources'', VList resources)]]"
| "setResByName (item # rest) name resources =
     (case item of
        VMap m \<Rightarrow>
          (case mget m ''name'' of
             VStr n \<Rightarrow>
               if n = name then
                 Inr (VMap (AList.update ''resources'' (VList resources) m) # rest)
               else bindE (setResByName rest name resources) (\<lambda>rest'. Inr (item # rest'))
           | _ \<Rightarrow> Inl Panic)
      | _ \<Rightarrow> Inl Panic)"

section \<open>The comparison that ends a reconcile\<close>





text \<open>Shapes of a value, for stating properties.\<close>

definition isMap :: "val \<Rightarrow> bool" where
  "isMap v = (case v of VMap _ \<Rightarrow> True | _ \<Rightarrow> False)"

definition isList :: "val \<Rightarrow> bool" where
  "isList v = (case v of VList _ \<Rightarrow> True | _ \<Rightarrow> False)"

text \<open>Nested indexing \<^verbatim>\<open>v[k1][k2]...\<close>, \<open>VNil\<close> where a key is missing or the value
  is not a map.\<close>

fun getPath :: "val \<Rightarrow> string list \<Rightarrow> val" where
  "getPath v [] = v"
| "getPath (VMap m) (k # ks) = getPath (mget m k) ks"
| "getPath _ (k # ks) = VNil"

text \<open>
  Along a path, wherever the first tree holds a map, the second holds a map or nothing:
  the second tree puts no scalar or list where the first has a map to descend into.
\<close>

fun mapsAlong :: "val \<Rightarrow> val \<Rightarrow> string list \<Rightarrow> bool" where
  "mapsAlong d c [] = True"
| "mapsAlong (VMap dm) c (k # ks) =
     (case c of
        VNil \<Rightarrow> True
      | VMap cm \<Rightarrow> mapsAlong (mget dm k) (mget cm k) ks
      | _ \<Rightarrow> False)"
| "mapsAlong d c (k # ks) = True"





text \<open>
  The two loops of \<^verbatim>\<open>mergeCRsIntoOperandConfig\<close> read as functions of the value under
  one key: \<open>filterVal\<close> is what \<^verbatim>\<open>filterChangedMapWithRules\<close> leaves under the key
  (\<open>None\<close> when it deletes the key), and \<open>mergeVal\<close> is what \<^verbatim>\<open>mergeChangedMap\<close>
  leaves under it when the default holds no list. They are proved equal to the loops
  below and serve only to reason about two runs in a row.
\<close>

lemma map_filter_cong [fundef_cong]:
  "xs = ys \<Longrightarrow> (\<And>x. x \<in> set ys \<Longrightarrow> f x = g x) \<Longrightarrow> List.map_filter f xs = List.map_filter g ys"
  by (induction ys arbitrary: xs) (auto simp: List.map_filter_simps split: option.splits)

function filterVal :: "val \<Rightarrow> val \<Rightarrow> val option" where
  "filterVal rules changedMap =
     (case changedMap of
        VMap changedMapRef \<Rightarrow>
          (case rules of
             VMap rulesRef \<Rightarrow>
               Some (VMap (List.map_filter
                  (\<lambda>(newKey, cv). map_option (Pair newKey) (filterVal (mget rulesRef newKey) cv))
                  changedMapRef))
           | _ \<Rightarrow> None)
      | _ \<Rightarrow> if rules = VNil \<and> changedMap \<noteq> VNil then None else Some changedMap)"
  by pat_completeness auto
termination
  by (relation "measure (\<lambda>(rules, changedMap). size changedMap)") (auto simp: size_entry)

text \<open>The pruning loop over every key of the changed tree.\<close>

definition filterFields :: "gomap \<Rightarrow> gomap \<Rightarrow> gomap" where
  "filterFields rules changedMap =
     List.map_filter (\<lambda>(key, cv). map_option (Pair key) (filterVal (mget rules key) cv)) changedMap"

function mergeVal :: "comparator \<Rightarrow> bool \<Rightarrow> string \<Rightarrow> val \<Rightarrow> val \<Rightarrow> val" where
  "mergeVal rc directAssign key defaultMap changedMap =
     (if DeepEqual defaultMap changedMap then changedMap
      else
        (case defaultMap of
           VMap defaultMapRef \<Rightarrow>
             if changedMap = VNil then defaultMap
             else
               (case changedMap of
                  VMap changedMapRef \<Rightarrow>
                    VMap (fold (\<lambda>(newKey, dv) m.
                             if DeepEqual dv (mget m newKey) then m
                             else AList.update newKey
                                    (mergeVal rc directAssign newKey dv (mget m newKey)) m)
                           defaultMapRef changedMapRef)
                | _ \<Rightarrow> changedMap)
         | VList defaultMapRef \<Rightarrow> changedMap
         | _ \<Rightarrow>
             if changedMap = VNil then defaultMap
             else if hasKey comparableKeys key then
               if directAssign then changedMap else fst (rc defaultMap changedMap)
             else changedMap))"
  by pat_completeness auto
termination
  by (relation "measure (\<lambda>(rc, directAssign, key, defaultMap, changedMap). size defaultMap)")
     (auto simp: size_entry)



text \<open>What a lookup reads after the pruning step: a deleted key reads as nil.\<close>

definition filterGet :: "val \<Rightarrow> val \<Rightarrow> val" where
  "filterGet r c = (case filterVal r c of None \<Rightarrow> VNil | Some v \<Rightarrow> v)"

declare mergeChangedMap.simps [simp del] filterChangedMapWithRules.simps [simp del]
  mergeChangedMapWithExtremeSize.simps [simp del] deepMergeTwoMaps.simps [simp del]
  resetChangedMap.simps [simp del]
  filterVal.simps [simp del] mergeVal.simps [simp del]

section \<open>Controller-mode resolver\<close>

lemma mergeProfileController_other:
  "\<not> hasKey incoming op \<Longrightarrow>
   map_of (mergeProfileController summary incoming) op = map_of summary op"
  by (induction incoming arbitrary: summary)
     (auto simp: hasKey_def update_conv' split: option.splits if_splits)

lemma mergeProfileController_entry:
  assumes "distinct (map fst incoming)" "(op, m) \<in> set incoming"
  shows "map_of (mergeProfileController summary incoming) op =
     Some (case map_of summary op of
             None \<Rightarrow> m
           | Some s \<Rightarrow>
               if hasKey nonDefaultProfileController m \<and> \<not> hasKey nonDefaultProfileController s
               then m else s)"
  using assms
proof (induction incoming arbitrary: summary)
  case Nil
  then show ?case by simp
next
  case (Cons a rest)
  obtain operator profileController where a: "a = (operator, profileController)" by (cases a)
  show ?case
  proof (cases "operator = op")
    case True
    with Cons.prems a have m: "profileController = m" and nk: "\<not> hasKey rest op"
      by (auto simp: hasKey_def map_of_eq_None_iff rev_image_eqI)
    show ?thesis using True m a
      by (simp add: mergeProfileController_other[OF nk] update_conv' split: option.splits)
  next
    case False
    with Cons.prems a have d: "distinct (map fst rest)" and i: "(op, m) \<in> set rest" by auto
    show ?thesis unfolding a mergeProfileController.simps
      using False by (auto simp: Cons.IH[OF d i] update_conv' split: option.splits)
  qed
qed

text \<open>
  Claim C6. \<open>mergeProfileController\<close> visits every operand of the incoming map. Where the
  summary already has an entry, the incoming mode replaces it only when the incoming mode is
  one of the independent modes of \<open>nonDefaultProfileController\<close> and the entry of the
  summary is not; so an independent mode in the summary is never displaced. Where the
  summary has no entry, the incoming mode is adopted whatever it is. Operands that the
  incoming map does not mention keep their entry.
\<close>

theorem mergeProfileController_resolves:
  assumes "distinct (map fst incoming)"
  shows "map_of (mergeProfileController summary incoming) op =
     (case map_of incoming op of
        None \<Rightarrow> map_of summary op
      | Some m \<Rightarrow>
          Some (case map_of summary op of
                  None \<Rightarrow> m
                | Some s \<Rightarrow>
                    if hasKey nonDefaultProfileController m
                       \<and> \<not> hasKey nonDefaultProfileController s
                    then m else s))"
proof (cases "map_of incoming op")
  case None
  then have "\<not> hasKey incoming op" by (simp add: hasKey_def)
  then show ?thesis using None by (simp add: mergeProfileController_other)
next
  case (Some m)
  then have "(op, m) \<in> set incoming" by (rule map_of_SomeD)
  from mergeProfileController_entry[OF assms this] Some show ?thesis by simp
qed

theorem mergeProfileController_resolves_witness:
  "distinct (map fst [(''a'', ''default''), (''b'', ''turbo''), (''c'', ''vpa'')])
   \<and> map_of (mergeProfileController [(''a'', ''vpa''), (''b'', ''default'')]
        [(''a'', ''default''), (''b'', ''turbo''), (''c'', ''vpa'')]) ''a'' = Some ''vpa''
   \<and> map_of (mergeProfileController [(''a'', ''vpa''), (''b'', ''default'')]
        [(''a'', ''default''), (''b'', ''turbo''), (''c'', ''vpa'')]) ''b'' = Some ''turbo''
   \<and> map_of (mergeProfileController [(''a'', ''vpa''), (''b'', ''default'')]
        [(''a'', ''default''), (''b'', ''turbo''), (''c'', ''vpa'')]) ''c'' = Some ''vpa''"
  using mergeProfileController_resolves
    [of "[(''a'', ''default''), (''b'', ''turbo''), (''c'', ''vpa'')]"
        "[(''a'', ''vpa''), (''b'', ''default'')]" "''a''"]
    mergeProfileController_resolves
    [of "[(''a'', ''default''), (''b'', ''turbo''), (''c'', ''vpa'')]"
        "[(''a'', ''vpa''), (''b'', ''default'')]" "''b''"]
    mergeProfileController_resolves
    [of "[(''a'', ''default''), (''b'', ''turbo''), (''c'', ''vpa'')]"
        "[(''a'', ''vpa''), (''b'', ''default'')]" "''c''"]
  by (simp add: hasKey_def nonDefaultProfileController_def)

section \<open>Lookups, loops and frames\<close>

lemma mget_update [simp]: "mget (AList.update k v m) k' = (if k = k' then v else mget m k')"
  by (simp add: mget_def update_conv')

lemma mget_delete [simp]: "mget (AList.delete k m) k' = (if k = k' then VNil else mget m k')"
  by (simp add: mget_def delete_conv')

lemma mget_absent: "k \<notin> set (map fst m) \<Longrightarrow> mget m k = VNil"
  using map_of_eq_None_iff[of m k] by (simp add: mget_def)

lemma DeepEqual_VNil [simp]: "DeepEqual d VNil \<longleftrightarrow> d = VNil"
  by (cases d) auto

lemma foldE_append:
  "foldE f (xs @ ys) s = (case foldE f xs s of Inl e \<Rightarrow> Inl e | Inr t \<Rightarrow> foldE f ys t)"
  by (induction xs arbitrary: s) (auto split: sum.splits)

lemma foldE_preserves:
  assumes "foldE f xs s = Inr s'" "P s"
    and "\<And>x t t'. x \<in> set xs \<Longrightarrow> P t \<Longrightarrow> f x t = Inr t' \<Longrightarrow> P t'"
  shows "P s'"
  using assms
proof (induction xs arbitrary: s)
  case Nil
  then show ?case by simp
next
  case (Cons x xs)
  from Cons.prems(1) obtain t where t: "f x s = Inr t" and r: "foldE f xs t = Inr s'"
    by (auto split: sum.splits)
  have "P t" using Cons.prems(3)[OF _ Cons.prems(2) t] by simp
  then show ?case using Cons.IH[OF r] Cons.prems(3) by auto
qed

lemma foldE_at:
  assumes "distinct xs" "x \<in> set xs" "foldE f xs s = Inr s'"
    and frame: "\<And>y t t'. y \<in> set xs \<Longrightarrow> y \<noteq> x \<Longrightarrow> f y t = Inr t' \<Longrightarrow> g t' = g t"
  obtains t t' where "g t = g s" "f x t = Inr t'" "g s' = g t'"
proof -
  from assms(2) obtain ys zs where xs: "xs = ys @ x # zs" by (auto dest: split_list)
  with assms(1) have nys: "x \<notin> set ys" and nzs: "x \<notin> set zs" by auto
  from assms(3) obtain t where t: "foldE f ys s = Inr t" and r: "foldE f (x # zs) t = Inr s'"
    unfolding xs foldE_append by (auto split: sum.splits)
  from r obtain t' where t': "f x t = Inr t'" and r': "foldE f zs t' = Inr s'"
    by (auto split: sum.splits)
  have 1: "g t = g s"
  proof (rule foldE_preserves[OF t, where P = "\<lambda>u. g u = g s"])
    fix y u u' assume "y \<in> set ys" "g u = g s" "f y u = Inr u'"
    with frame[of y u u'] nys xs show "g u' = g s" by auto
  qed simp
  have 2: "g s' = g t'"
  proof (rule foldE_preserves[OF r', where P = "\<lambda>u. g u = g t'"])
    fix y u u' assume "y \<in> set zs" "g u = g t'" "f y u = Inr u'"
    with frame[of y u u'] nzs xs show "g u' = g t'" by auto
  qed simp
  from that[OF 1 t' 2] show thesis .
qed

lemma foldE_frame:
  assumes "foldE f xs s = Inr s'"
    and "\<And>y t t'. y \<in> set xs \<Longrightarrow> f y t = Inr t' \<Longrightarrow> g t' = g t"
  shows "g s' = g s"
proof (rule foldE_preserves[OF assms(1), where P = "\<lambda>u. g u = g s"])
  fix y u u' assume "y \<in> set xs" "g u = g s" "f y u = Inr u'"
  with assms(2)[of y u u'] show "g u' = g s" by simp
qed simp

lemma atMap_frame: "atMap fm key f = Inr fm' \<Longrightarrow> k \<noteq> key \<Longrightarrow> mget fm' k = mget fm k"
  by (auto simp: atMap_def split: val.splits sum.splits)

lemma atListMap_frame: "atListMap fm key i f = Inr fm' \<Longrightarrow> k \<noteq> key \<Longrightarrow> mget fm' k = mget fm k"
  by (auto simp: atListMap_def split: val.splits sum.splits if_splits)

lemma appendAt_frame: "appendAt fm key v = Inr fm' \<Longrightarrow> k \<noteq> key \<Longrightarrow> mget fm' k = mget fm k"
  by (auto simp: appendAt_def split: val.splits sum.splits if_splits)


lemma mergeChangedMap_frame:
  assumes "mergeChangedMap rc key d c fm da = Inr fm'" "k \<noteq> key"
  shows "mget fm' k = mget fm k"
proof -
  have ne: "key \<noteq> k" using assms(2) by simp
  have map_case: "mget t' k = mget t k"
    if "foldE (\<lambda>(newKey, dv) fm. atMap fm key (h newKey dv)) xs t = Inr t'"
    for xs t t' and h :: "string \<Rightarrow> val \<Rightarrow> gomap \<Rightarrow> error + gomap"
    by (rule foldE_frame[OF that]) (use assms(2) in \<open>auto dest: atMap_frame\<close>)
  have elem_case: "mget t' k = mget t k"
    if "foldE (\<lambda>(newKey, dv) fm'. case cs ! i of VMap cim \<Rightarrow> atListMap fm' key i (h newKey dv cim) | _ \<Rightarrow> Inl Panic) dim t = Inr t'"
    for cs i dim t t' and h :: "string \<Rightarrow> val \<Rightarrow> gomap \<Rightarrow> gomap \<Rightarrow> error + gomap"
    by (rule foldE_frame[OF that]) (use assms(2) in \<open>auto split: val.splits dest: atListMap_frame\<close>)
  have list_case: "mget t' k = mget t k"
    if "foldE (\<lambda>(i, di) fm. case di of
            VMap dim \<Rightarrow> if length cs \<le> i then appendAt fm key di
               else foldE (\<lambda>(newKey, dv) fm'. case cs ! i of VMap cim \<Rightarrow> atListMap fm' key i (h i newKey dv cim) | _ \<Rightarrow> Inl Panic) dim fm
          | _ \<Rightarrow> Inr fm) xs t = Inr t'"
    for cs xs t t' and h :: "nat \<Rightarrow> string \<Rightarrow> val \<Rightarrow> gomap \<Rightarrow> gomap \<Rightarrow> error + gomap"
    by (rule foldE_frame[OF that])
       (use assms(2) in \<open>auto split: val.splits if_splits dest: appendAt_frame elem_case\<close>)
  show ?thesis
    using assms(1) unfolding mergeChangedMap.simps[of rc key d c fm da]
    by (auto split: if_splits val.splits simp: ne dest: map_case list_case)
qed


lemma foldE_establish:
  assumes "x \<in> set xs" "foldE f xs s = Inr s'"
    and est: "\<And>t t'. f x t = Inr t' \<Longrightarrow> P t'"
    and pres: "\<And>y t t'. y \<in> set xs \<Longrightarrow> P t \<Longrightarrow> f y t = Inr t' \<Longrightarrow> P t'"
  shows "P s'"
proof -
  from assms(1) obtain ys zs where xs: "xs = ys @ x # zs" by (auto dest: split_list)
  from assms(2) obtain t where t: "foldE f ys s = Inr t" and r: "foldE f (x # zs) t = Inr s'"
    unfolding xs foldE_append by (auto split: sum.splits)
  from r obtain t' where t': "f x t = Inr t'" and r': "foldE f zs t' = Inr s'"
    by (auto split: sum.splits)
  show ?thesis
  proof (rule foldE_preserves[OF r', where P = P])
    show "P t'" using est[OF t'] .
  next
    fix y u u' assume "y \<in> set zs" "P u" "f y u = Inr u'"
    with pres[of y u u'] xs show "P u'" by simp
  qed
qed

lemma filterChangedMapWithRules_frame:
  assumes "filterChangedMapWithRules key c r fm = Inr fm'" "k \<noteq> key"
  shows "mget fm' k = mget fm k"
proof -
  have ne: "key \<noteq> k" using assms(2) by simp
  have map_case: "mget t' k = mget t k"
    if "foldE (\<lambda>(newKey, dv) fm. atMap fm key (h newKey dv)) xs t = Inr t'"
    for xs t t' and h :: "string \<Rightarrow> val \<Rightarrow> gomap \<Rightarrow> error + gomap"
    by (rule foldE_frame[OF that]) (use assms(2) in \<open>auto dest: atMap_frame\<close>)
  show ?thesis
    using assms(1) unfolding filterChangedMapWithRules.simps[of key c r fm]
    by (auto split: if_splits val.splits simp: ne dest: map_case)
qed

lemma filterChangedMapWithRules_no_rule:
  assumes "filterChangedMapWithRules key (mget fm key) VNil fm = Inr fm'"
  shows "mget fm' key = VNil"
  using assms unfolding filterChangedMapWithRules.simps[of key "mget fm key" VNil fm]
  by (auto split: if_splits val.splits)

lemma filter_loop_no_rule:
  assumes "foldE (\<lambda>key cm. filterChangedMapWithRules key (mget cm key) (mget R key) cm) (map fst C) C = Inr F"
    and "mget R k = VNil"
  shows "mget F k = VNil"
proof (cases "k \<in> set (map fst C)")
  case True
  show ?thesis
  proof (rule foldE_establish[OF True assms(1), where P = "\<lambda>t. mget t k = VNil"])
    fix t t' assume "filterChangedMapWithRules k (mget t k) (mget R k) t = Inr t'"
    then show "mget t' k = VNil" using assms(2) by (simp add: filterChangedMapWithRules_no_rule)
  next
    fix y t t' assume "mget t k = VNil" "filterChangedMapWithRules y (mget t y) (mget R y) t = Inr t'"
    then show "mget t' k = VNil"
      using assms(2) filterChangedMapWithRules_no_rule[of k t t'] filterChangedMapWithRules_frame[of y _ _ t t' k]
      by (cases "y = k") auto
  qed
next
  case False
  then have "mget C k = VNil" by (rule mget_absent)
  moreover have "mget F k = mget C k"
    by (rule foldE_frame[OF assms(1)]) (use False in \<open>auto dest: filterChangedMapWithRules_frame\<close>)
  ultimately show ?thesis by simp
qed

lemma mergeChangedMap_nil:
  assumes "mergeChangedMap rc key d VNil fm da = Inr fm'" "d \<noteq> VNil"
  shows "mget fm' key = d"
  using assms unfolding mergeChangedMap.simps[of rc key d VNil fm da]
  by (auto split: if_splits val.splits)

text \<open>The merge loop of \<open>mergeCRsIntoOperandConfig\<close>, seen at one key.\<close>

lemma merge_loop_at:
  assumes loop: "foldE (\<lambda>key cm.
              if DeepEqual (mget D key) (mget cm key) then Inr cm
              else mergeChangedMap rc key (mget D key) (mget cm key) cm da)
            (map fst D) F = Inr M"
    and d: "distinct (map fst D)" and k: "k \<in> set (map fst D)"
  obtains t t' where "mget t k = mget F k" 
     "(if DeepEqual (mget D k) (mget t k) then Inr t
              else mergeChangedMap rc k (mget D k) (mget t k) t da) = Inr t'"
     "mget M k = mget t' k"
proof (rule foldE_at[OF d k loop, where g = "\<lambda>m. mget m k"])
  fix y t t'
  assume "y \<noteq> k" "(if DeepEqual (mget D y) (mget t y) then Inr t
              else mergeChangedMap rc y (mget D y) (mget t y) t da) = Inr t'"
  then show "mget t' k = mget t k"
    using mergeChangedMap_frame[of rc y _ _ t da t' k] by (auto split: if_splits)
qed (rule that)

lemma merge_loop_absent:
  assumes loop: "foldE (\<lambda>key cm.
              if DeepEqual (mget D key) (mget cm key) then Inr cm
              else mergeChangedMap rc key (mget D key) (mget cm key) cm da)
            (map fst D) F = Inr M"
    and k: "k \<notin> set (map fst D)"
  shows "mget M k = mget F k"
  by (rule foldE_frame[OF loop]) (use k in \<open>auto split: if_splits dest: mergeChangedMap_frame\<close>)

lemma merge_loop_nil:
  assumes loop: "foldE (\<lambda>key cm.
              if DeepEqual (mget D key) (mget cm key) then Inr cm
              else mergeChangedMap rc key (mget D key) (mget cm key) cm da)
            (map fst D) F = Inr M"
    and d: "distinct (map fst D)" and F: "mget F k = VNil"
  shows "mget M k = mget D k"
proof (cases "k \<in> set (map fst D)")
  case True
  from merge_loop_at[OF loop d True] obtain t t' where t: "mget t k = mget F k"
    and s: "(if DeepEqual (mget D k) (mget t k) then Inr t
              else mergeChangedMap rc k (mget D k) (mget t k) t da) = Inr t'"
    and M: "mget M k = mget t' k" by blast
  show ?thesis
  proof (cases "mget D k = VNil")
    case True
    with s t F show ?thesis using M by simp
  next
    case False
    with s t F have "mergeChangedMap rc k (mget D k) VNil t da = Inr t'" by simp
    from mergeChangedMap_nil[OF this False] M show ?thesis by simp
  qed
next
  case False
  then have "mget D k = VNil" by (rule mget_absent)
  with merge_loop_absent[OF loop False] F show ?thesis by simp
qed

lemma filter_loop_keep:
  assumes loop: "foldE (\<lambda>key cm. filterChangedMapWithRules key (mget cm key) (mget R key) cm) (map fst C) C = Inr F"
    and r: "mget R k \<noteq> VNil" and c: "\<not> isMap (mget C k)"
  shows "mget F k = mget C k"
proof (rule foldE_preserves[OF loop, where P = "\<lambda>t. mget t k = mget C k"])
  fix y t t'
  assume P: "mget t k = mget C k"
    and s: "filterChangedMapWithRules y (mget t y) (mget R y) t = Inr t'"
  show "mget t' k = mget C k"
  proof (cases "y = k")
    case True
    with s P r c have "t' = t"
      unfolding filterChangedMapWithRules.simps[of y "mget t y" "mget R y" t]
      by (auto simp: isMap_def split: val.splits)
    with P show ?thesis by simp
  next
    case False
    with filterChangedMapWithRules_frame[OF s, of k] P show ?thesis by simp
  qed
qed simp

lemma mergeChangedMap_scalar_other:
  assumes "mergeChangedMap rc key d c fm da = Inr fm'"
    and "\<not> isMap d" "\<not> isList d" "c \<noteq> VNil" "\<not> hasKey comparableKeys key"
  shows "fm' = fm"
  using assms unfolding mergeChangedMap.simps[of rc key d c fm da]
  by (auto simp: isMap_def isList_def split: if_splits val.splits)

lemma merge_loop_scalar_other:
  assumes loop: "foldE (\<lambda>key cm.
              if DeepEqual (mget D key) (mget cm key) then Inr cm
              else mergeChangedMap rc key (mget D key) (mget cm key) cm da)
            (map fst D) F = Inr M"
    and d: "distinct (map fst D)"
    and sc: "\<not> isMap (mget D k)" "\<not> isList (mget D k)"
    and c: "mget F k \<noteq> VNil" and nk: "\<not> hasKey comparableKeys k"
  shows "mget M k = mget F k"
proof (cases "k \<in> set (map fst D)")
  case True
  from merge_loop_at[OF loop d True] obtain t t' where t: "mget t k = mget F k"
    and s: "(if DeepEqual (mget D k) (mget t k) then Inr t
              else mergeChangedMap rc k (mget D k) (mget t k) t da) = Inr t'"
    and M: "mget M k = mget t' k" by blast
  have "t' = t"
  proof (cases "DeepEqual (mget D k) (mget t k)")
    case True
    with s show ?thesis by simp
  next
    case False
    with s have "mergeChangedMap rc k (mget D k) (mget t k) t da = Inr t'" by simp
    from mergeChangedMap_scalar_other[OF this sc _ nk] c t show ?thesis by simp
  qed
  with M t show ?thesis by simp
next
  case False
  from merge_loop_absent[OF loop False] show ?thesis .
qed

section \<open>Rule-filtered merge\<close>

text \<open>
  Claim C3, as amended. For a key outside the allow-list whose default value is neither a
  map nor a list, and for which \<open>changedMap\<close> holds a non-nil value, the merge never consults
  the comparator and the output holds the value of \<open>changedMap\<close>, not the default's: always
  when \<open>overwrite\<close> is true, and when it is false provided the rules have the key and the
  changed value is not a map. The default's value comes out only where the pruning removed
  the key (\<open>overwrite\<close> false and no rule for it). This holds for either value of
  \<open>directAssign\<close>, in particular for \<open>directAssign = false\<close>.
\<close>

theorem mergeCRsIntoOperandConfig_unlisted_scalar:
  assumes "distinct (map fst D)" and "\<not> hasKey comparableKeys k"
    and "\<not> isMap (mget D k)" and "\<not> isList (mget D k)"
    and "mget C k \<noteq> VNil"
    and "mergeCRsIntoOperandConfig rc D C R ow da = Inr M"
  shows "(ow \<longrightarrow> mget M k = mget C k)
       \<and> (\<not> ow \<and> mget R k \<noteq> VNil \<and> \<not> isMap (mget C k) \<longrightarrow> mget M k = mget C k)
       \<and> (\<not> ow \<and> mget R k = VNil \<longrightarrow> mget M k = mget D k)"
proof (intro conjI impI)
  assume ow
  with assms(6) have loop: "foldE (\<lambda>key cm.
              if DeepEqual (mget D key) (mget cm key) then Inr cm
              else mergeChangedMap rc key (mget D key) (mget cm key) cm da)
            (map fst D) C = Inr M"
    by (simp add: mergeCRsIntoOperandConfig_def)
  from merge_loop_scalar_other[OF loop assms(1,3,4,5,2)] show "mget M k = mget C k" .
next
  assume a: "\<not> ow \<and> mget R k \<noteq> VNil \<and> \<not> isMap (mget C k)"
  with assms(6) obtain F where
    F: "foldE (\<lambda>key cm. filterChangedMapWithRules key (mget cm key) (mget R key) cm) (map fst C) C = Inr F"
    and loop: "foldE (\<lambda>key cm.
              if DeepEqual (mget D key) (mget cm key) then Inr cm
              else mergeChangedMap rc key (mget D key) (mget cm key) cm da)
            (map fst D) F = Inr M"
    by (auto simp: mergeCRsIntoOperandConfig_def split: sum.splits)
  from filter_loop_keep[OF F] a have Fk: "mget F k = mget C k" by simp
  with assms(5) have "mget F k \<noteq> VNil" by simp
  from merge_loop_scalar_other[OF loop assms(1,3,4) this assms(2)] Fk
  show "mget M k = mget C k" by simp
next
  assume a: "\<not> ow \<and> mget R k = VNil"
  with assms(6) obtain F where
    F: "foldE (\<lambda>key cm. filterChangedMapWithRules key (mget cm key) (mget R key) cm) (map fst C) C = Inr F"
    and loop: "foldE (\<lambda>key cm.
              if DeepEqual (mget D key) (mget cm key) then Inr cm
              else mergeChangedMap rc key (mget D key) (mget cm key) cm da)
            (map fst D) F = Inr M"
    by (auto simp: mergeCRsIntoOperandConfig_def split: sum.splits)
  from filter_loop_no_rule[OF F] a have "mget F k = VNil" by simp
  from merge_loop_nil[OF loop assms(1) this] show "mget M k = mget D k" .
qed

theorem mergeCRsIntoOperandConfig_unlisted_scalar_witness:
  "distinct (map fst [(''foo'', VStr ''bar'')])
   \<and> \<not> hasKey comparableKeys ''foo''
   \<and> \<not> isMap (mget [(''foo'', VStr ''bar'')] ''foo'')
   \<and> \<not> isList (mget [(''foo'', VStr ''bar'')] ''foo'')
   \<and> mget [(''foo'', VStr ''baz'')] ''foo'' \<noteq> VNil
   \<and> mergeCRsIntoOperandConfig ResourceComparison [(''foo'', VStr ''bar'')]
         [(''foo'', VStr ''baz'')] [(''foo'', VMap [])] False False
       = Inr [(''foo'', VStr ''baz'')]
   \<and> mget [(''foo'', VMap [])] ''foo'' \<noteq> VNil
   \<and> \<not> isMap (mget [(''foo'', VStr ''baz'')] ''foo'')
   \<and> mget [(''foo'', VStr ''baz'')] ''foo'' = mget [(''foo'', VStr ''baz'')] ''foo''"
  using mergeCRsIntoOperandConfig_unlisted_scalar
    [of "[(''foo'', VStr ''bar'')]" "''foo''" "[(''foo'', VStr ''baz'')]" ResourceComparison
        "[(''foo'', VMap [])]" False False "[(''foo'', VStr ''baz'')]"]
  by (simp add: mergeCRsIntoOperandConfig_def mget_def hasKey_def comparableKeys_def
        isMap_def isList_def mergeChangedMap.simps filterChangedMapWithRules.simps)

text \<open>
  The claim as stated fails: \<open>foo\<close> is not in the allow-list, \<open>directAssign\<close> is false, and
  the output holds the changed value \<open>"baz"\<close>, not the default \<open>"bar"\<close>.
\<close>

theorem mergeCRsIntoOperandConfig_unlisted_scalar_overwritten:
  "\<not> hasKey comparableKeys ''foo''
   \<and> mergeCRsIntoOperandConfig ResourceComparison [(''foo'', VStr ''bar'')]
         [(''foo'', VStr ''baz'')] [] True False
       = Inr [(''foo'', VStr ''baz'')]
   \<and> mget [(''foo'', VStr ''baz'')] ''foo'' \<noteq> mget [(''foo'', VStr ''bar'')] ''foo''"
  by (simp add: mergeCRsIntoOperandConfig_def mget_def hasKey_def comparableKeys_def
        mergeChangedMap.simps)

section \<open>Short-list padding\<close>

lemma elem_fold_length:
  assumes "foldE (\<lambda>(newKey, dv) fm'. case cs ! i of
                      VMap cim \<Rightarrow> atListMap fm' key i (h newKey dv cim)
                    | _ \<Rightarrow> Inl Panic) dim t = Inr t'"
    and "\<exists>fl. mget t key = VList fl \<and> length fl = n"
  shows "\<exists>fl. mget t' key = VList fl \<and> length fl = n"
proof (rule foldE_preserves[OF assms(1), where P = "\<lambda>u. \<exists>fl. mget u key = VList fl \<and> length fl = n"])
  fix x u u'
  assume "\<exists>fl. mget u key = VList fl \<and> length fl = n"
    and "(case x of (newKey, dv) \<Rightarrow> \<lambda>fm'. case cs ! i of
                      VMap cim \<Rightarrow> atListMap fm' key i (h newKey dv cim)
                    | _ \<Rightarrow> Inl Panic) u = Inr u'"
  then show "\<exists>fl. mget u' key = VList fl \<and> length fl = n"
    by (auto simp: atListMap_def split: prod.splits val.splits if_splits sum.splits)
qed (rule assms(2))

lemma list_step_first:
  assumes "(case d0 of
              VMap dim \<Rightarrow>
                if length [c0] \<le> (0::nat) then appendAt fm key d0
                else foldE (\<lambda>(newKey, dv) fm'. case [c0] ! 0 of
                        VMap cim \<Rightarrow> atListMap fm' key 0 (h newKey dv cim)
                      | _ \<Rightarrow> Inl Panic) dim fm
            | _ \<Rightarrow> Inr fm) = Inr t"
    and "mget fm key = VList [c0]"
  shows "\<exists>x. mget t key = VList [x]"
proof (cases d0)
  case (VMap dim)
  with assms(1) have "foldE (\<lambda>(newKey, dv) fm'. case [c0] ! 0 of
                        VMap cim \<Rightarrow> atListMap fm' key 0 (h newKey dv cim)
                      | _ \<Rightarrow> Inl Panic) dim fm = Inr t" by simp
  from elem_fold_length[OF this, of 1] assms(2)
  obtain fl where "mget t key = VList fl" "length fl = 1" by auto
  then show ?thesis by (cases fl) auto
qed (use assms in auto)

lemma mergeChangedMap_pads:
  assumes "mget fm key = VList [c0]"
    and "mergeChangedMap rc key (VList [d0, VMap m1, VMap m2]) (VList [c0]) fm da = Inr fm'"
  shows "\<exists>x. mget fm' key = VList [x, VMap m1, VMap m2]"
proof -
  from assms(2) obtain t where
    t: "(case d0 of
              VMap dim \<Rightarrow>
                if length [c0] \<le> (0::nat) then appendAt fm key d0
                else foldE (\<lambda>(newKey, dv) fm'. case [c0] ! 0 of
                        VMap cim \<Rightarrow> atListMap fm' key 0 (\<lambda>fe. mergeChangedMap rc newKey dv (mget cim newKey) fe da)
                      | _ \<Rightarrow> Inl Panic) dim fm
            | _ \<Rightarrow> Inr fm) = Inr t"
    and r: "(case appendAt t key (VMap m1) of Inl e \<Rightarrow> Inl e
             | Inr t1 \<Rightarrow> appendAt t1 key (VMap m2)) = Inr fm'"
    unfolding mergeChangedMap.simps[of rc key "VList [d0, VMap m1, VMap m2]" "VList [c0]" fm da]
    by (auto split: sum.splits)
  from list_step_first[OF t assms(1)] obtain x where "mget t key = VList [x]" by blast
  with r show ?thesis by (auto simp: appendAt_def split: sum.splits)
qed

lemma mergeChangedMap_pads_total:
  assumes "mget fm key = VList [c0]" "\<not> isMap d0"
  shows "mergeChangedMap rc key (VList [d0, VMap m1, VMap m2]) (VList [c0]) fm da
         = Inr (AList.update key (VList [c0, VMap m1, VMap m2]) fm)"
  using assms
  unfolding mergeChangedMap.simps[of rc key "VList [d0, VMap m1, VMap m2]" "VList [c0]" fm da]
  by (cases d0) (auto simp: appendAt_def isMap_def)

lemma deepMergeTwoMaps_pads:
  assumes "mget fm key = VList [c0]"
    and "deepMergeTwoMaps key (VList [d0, VMap m1, VMap m2]) (VList [c0]) fm = Inr fm'"
  shows "\<exists>x. mget fm' key = VList [x, VMap m1, VMap m2]"
proof -
  from assms(2) obtain t where
    t: "(case d0 of
              VMap dim \<Rightarrow>
                if length [c0] \<le> (0::nat) then appendAt fm key d0
                else foldE (\<lambda>(newKey, dv) fm'. case [c0] ! 0 of
                        VMap cim \<Rightarrow> atListMap fm' key 0 (\<lambda>fe. deepMergeTwoMaps newKey dv (mget cim newKey) fe)
                      | _ \<Rightarrow> Inl Panic) dim fm
            | _ \<Rightarrow> Inr fm) = Inr t"
    and r: "(case appendAt t key (VMap m1) of Inl e \<Rightarrow> Inl e
             | Inr t1 \<Rightarrow> appendAt t1 key (VMap m2)) = Inr fm'"
    unfolding deepMergeTwoMaps.simps[of key "VList [d0, VMap m1, VMap m2]" "VList [c0]" fm]
    by (auto split: sum.splits)
  from list_step_first[OF t assms(1)] obtain x where "mget t key = VList [x]" by blast
  with r show ?thesis by (auto simp: appendAt_def split: sum.splits)
qed

lemma deepMergeTwoMaps_pads_total:
  assumes "mget fm key = VList [c0]" "\<not> isMap d0"
  shows "deepMergeTwoMaps key (VList [d0, VMap m1, VMap m2]) (VList [c0]) fm
         = Inr (AList.update key (VList [c0, VMap m1, VMap m2]) fm)"
  using assms
  unfolding deepMergeTwoMaps.simps[of key "VList [d0, VMap m1, VMap m2]" "VList [c0]" fm]
  by (cases d0) (auto simp: appendAt_def isMap_def)

text \<open>
  Claim C9, as amended. A default list of length 3 whose elements at positions 1 and 2 are
  maps, merged against a changed list of length 1 under the same key, gives a list of
  length 3 whose positions 1 and 2 are those two maps of the default, in
  \<open>mergeChangedMap\<close> and in \<open>deepMergeTwoMaps\<close> alike, whenever the merge of position 0
  returns; it does return, leaving position 0 as it was, when the default's element 0 is
  not a map. (Only map elements of the default are appended: both functions skip an
  element of the default that is not a map.)
\<close>

theorem short_list_padding:
  assumes "mget fm key = VList [c0]"
  shows "(mergeChangedMap rc key (VList [d0, VMap m1, VMap m2]) (VList [c0]) fm da = Inr fm'
            \<longrightarrow> (\<exists>x. mget fm' key = VList [x, VMap m1, VMap m2]))
       \<and> (deepMergeTwoMaps key (VList [d0, VMap m1, VMap m2]) (VList [c0]) fm = Inr fm''
            \<longrightarrow> (\<exists>x. mget fm'' key = VList [x, VMap m1, VMap m2]))
       \<and> (\<not> isMap d0 \<longrightarrow>
            mergeChangedMap rc key (VList [d0, VMap m1, VMap m2]) (VList [c0]) fm da
              = Inr (AList.update key (VList [c0, VMap m1, VMap m2]) fm)
            \<and> deepMergeTwoMaps key (VList [d0, VMap m1, VMap m2]) (VList [c0]) fm
              = Inr (AList.update key (VList [c0, VMap m1, VMap m2]) fm))"
  using mergeChangedMap_pads[OF assms] deepMergeTwoMaps_pads[OF assms]
    mergeChangedMap_pads_total[OF assms] deepMergeTwoMaps_pads_total[OF assms]
  by blast

theorem short_list_padding_witness:
  "mget [(''l'', VList [VMap [(''c'', VNum 2)]])] ''l'' = VList [VMap [(''c'', VNum 2)]]
   \<and> mergeChangedMap ResourceComparison ''l''
         (VList [VMap [(''a'', VNum 1)], VMap [(''b'', VNum 1)], VMap []])
         (VList [VMap [(''c'', VNum 2)]]) [(''l'', VList [VMap [(''c'', VNum 2)]])] False
       = Inr [(''l'', VList [VMap [(''c'', VNum 2), (''a'', VNum 1)], VMap [(''b'', VNum 1)],
                             VMap []])]
   \<and> deepMergeTwoMaps ''l''
         (VList [VMap [(''a'', VNum 1)], VMap [(''b'', VNum 1)], VMap []])
         (VList [VMap [(''c'', VNum 2)]]) [(''l'', VList [VMap [(''c'', VNum 2)]])]
       = Inr [(''l'', VList [VMap [(''c'', VNum 2), (''a'', VNum 1)], VMap [(''b'', VNum 1)],
                             VMap []])]
   \<and> mget [(''l'', VList [VMap [(''c'', VNum 2), (''a'', VNum 1)], VMap [(''b'', VNum 1)],
                             VMap []])] ''l''
       = VList [VMap [(''c'', VNum 2), (''a'', VNum 1)], VMap [(''b'', VNum 1)], VMap []]"
  using short_list_padding
    [of "[(''l'', VList [VMap [(''c'', VNum 2)]])]" "''l''" "VMap [(''c'', VNum 2)]"
        ResourceComparison "VMap [(''a'', VNum 1)]" "[(''b'', VNum 1)]" "[]" False
        "[(''l'', VList [VMap [(''c'', VNum 2), (''a'', VNum 1)], VMap [(''b'', VNum 1)],
                         VMap []])]"
        "[(''l'', VList [VMap [(''c'', VNum 2), (''a'', VNum 1)], VMap [(''b'', VNum 1)],
                         VMap []])]"]
  by (simp add: mget_def atListMap_def appendAt_def hasKey_def comparableKeys_def
        mergeChangedMap.simps deepMergeTwoMaps.simps)

text \<open>
  The claim as stated fails: a default list of length 3 whose trailing elements are
  scalars, against a changed list of length 1, gives a list of length 1.
\<close>

theorem short_list_not_padded:
  "mergeCRsIntoOperandConfigWithDefaultRules ResourceComparison
     [(''l'', VList [VMap [(''a'', VNum 1)], VStr ''x'', VStr ''y''])]
     [(''l'', VList [VMap [(''a'', VNum 2)]])] False
   = Inr [(''l'', VList [VMap [(''a'', VNum 2)]])]
   \<and> mergeSizeProfile
     [(''l'', VList [VMap [(''a'', VNum 1)], VStr ''x'', VStr ''y''])]
     [(''l'', VList [VMap [(''a'', VNum 2)]])]
   = Inr [(''l'', VList [VMap [(''a'', VNum 2)]])]"
  by (simp add: mergeCRsIntoOperandConfigWithDefaultRules_def mergeSizeProfile_def mget_def
        atListMap_def appendAt_def hasKey_def comparableKeys_def
        mergeChangedMap.simps deepMergeTwoMaps.simps)

section \<open>Extreme merge\<close>

lemma getPath_VNil [simp]: "getPath VNil p = VNil"
  by (cases p) auto

lemma DeepEqual_scalar_right:
  "\<not> isMap c \<Longrightarrow> \<not> isList c \<Longrightarrow> DeepEqual d c \<longleftrightarrow> d = c"
  by (cases d; cases c) (auto simp: isMap_def isList_def)

lemma DeepEqual_map_left: "DeepEqual d (VMap cm) \<Longrightarrow> \<exists>dm. d = VMap dm"
  by (cases d) auto

lemma DeepEqual_keys:
  assumes "DeepEqual (VMap m1) (VMap m2)" "distinct (map fst m1)"
  shows "fst ` set m1 = fst ` set m2"
proof -
  have sub: "fst ` set m1 \<subseteq> fst ` set m2"
  proof
    fix k assume "k \<in> fst ` set m1"
    then obtain v where "(k, v) \<in> set m1" by auto
    with assms(1) have "map_of m2 k \<noteq> None"
      by (auto simp: list_all_iff split: option.splits)
    then show "k \<in> fst ` set m2" by (simp add: map_of_eq_None_iff)
  qed
  have "card (fst ` set m2) \<le> length m2" 
    using card_length[of "map fst m2"] by simp
  also have "\<dots> = length m1" using assms(1) by simp
  also have "\<dots> = card (fst ` set m1)" using distinct_card[OF assms(2)] by simp
  finally have "card (fst ` set m2) \<le> card (fst ` set m1)" .
  with sub show ?thesis by (simp add: card_seteq)
qed

lemma DeepEqual_mget:
  assumes "DeepEqual (VMap m1) (VMap m2)" "distinct (map fst m1)" "mget m2 k \<noteq> VNil"
  shows "DeepEqual (mget m1 k) (mget m2 k) \<and> (k, mget m1 k) \<in> set m1"
proof -
  from assms(3) have "k \<in> fst ` set m2"
    using mget_absent[of k m2] by auto
  with DeepEqual_keys[OF assms(1,2)] have "k \<in> fst ` set m1" by simp
  then obtain v where v: "(k, v) \<in> set m1" by auto
  with assms(2) have m1: "map_of m1 k = Some v" by simp
  from assms(1) v obtain w where "map_of m2 k = Some w" "DeepEqual v w"
    by (auto simp: list_all_iff split: option.splits)
  with m1 v show ?thesis by (simp add: mget_def)
qed


lemma wf_mget: "wf (VMap m) \<Longrightarrow> wf (mget m k)"
  by (auto simp: mget_def list_all_iff split: option.splits dest!: map_of_SomeD)

lemma DeepEqual_getPath:
  assumes "DeepEqual d c" "wf d" "getPath c p = v" "\<not> isMap v" "\<not> isList v" "v \<noteq> VNil"
  shows "getPath d p = v"
  using assms
proof (induction p arbitrary: d c)
  case Nil
  then show ?case by (simp add: DeepEqual_scalar_right)
next
  case (Cons k p)
  from Cons.prems(3,6) obtain cm where c: "c = VMap cm" by (cases c) auto
  with Cons.prems(1) obtain dm where d: "d = VMap dm" by (auto dest: DeepEqual_map_left)
  from Cons.prems(3,6) c have nn: "mget cm k \<noteq> VNil" by auto
  from Cons.prems(2) d have dist: "distinct (map fst dm)" by simp
  from DeepEqual_mget[OF Cons.prems(1)[unfolded c d] dist nn]
  have de: "DeepEqual (mget dm k) (mget cm k)" by simp
  have "getPath (mget dm k) p = v"
    by (rule Cons.IH[OF de]) (use Cons.prems c d wf_mget in auto)
  then show ?case by (simp add: d)
qed

lemma atMap_frame_inner:
  assumes "atMap t key f = Inr t'"
    and "\<And>inner inner'. f inner = Inr inner' \<Longrightarrow> mget inner' k = mget inner k"
  shows "getPath (mget t' key) (k # p) = getPath (mget t key) (k # p)"
  using assms by (auto simp: atMap_def split: val.splits sum.splits)

lemma atMap_at_inner:
  assumes "atMap t key f = Inr t'"
  obtains inner inner' where "mget t key = VMap inner" "f inner = Inr inner'"
    "mget t' key = VMap inner'"
  using assms by (auto simp: atMap_def split: val.splits sum.splits)

lemma mergeChangedMapWithExtremeSize_frame:
  assumes "mergeChangedMapWithExtremeSize rc key d c fm ex = Inr fm'" "k \<noteq> key"
  shows "mget fm' k = mget fm k"
proof -
  have ne: "key \<noteq> k" using assms(2) by simp
  have map_case: "mget t' k = mget t k"
    if "foldE (\<lambda>(newKey, cv) fm. atMap fm key (h newKey cv)) xs t = Inr t'"
    for xs t t' and h :: "string \<Rightarrow> val \<Rightarrow> gomap \<Rightarrow> error + gomap"
    by (rule foldE_frame[OF that]) (use assms(2) in \<open>auto dest: atMap_frame\<close>)
  have elem_case: "mget t' k = mget t k"
    if "foldE (\<lambda>(newKey, cv) fm'. if i < n then
            (case ds ! i of VMap dim \<Rightarrow> atListMap fm' key i (h newKey cv dim) | _ \<Rightarrow> Inr fm')
            else Inl Panic) cim t = Inr t'"
    for ds i n cim t t' and h :: "string \<Rightarrow> val \<Rightarrow> gomap \<Rightarrow> gomap \<Rightarrow> error + gomap"
    by (rule foldE_frame[OF that])
       (use assms(2) in \<open>auto split: val.splits if_splits dest: atListMap_frame\<close>)
  have list_case: "mget t' k = mget t k"
    if "foldE (\<lambda>(i, ci) fm. case ci of
            VMap cim \<Rightarrow> foldE (\<lambda>(newKey, cv) fm'. if i < n then
                (case ds ! i of VMap dim \<Rightarrow> atListMap fm' key i (h i newKey cv dim) | _ \<Rightarrow> Inr fm')
                else Inl Panic) cim fm
          | _ \<Rightarrow> Inl Panic) xs t = Inr t'"
    for ds n xs t t' and h :: "nat \<Rightarrow> string \<Rightarrow> val \<Rightarrow> gomap \<Rightarrow> gomap \<Rightarrow> error + gomap"
    by (rule foldE_frame[OF that])
       (use assms(2) in \<open>auto split: val.splits if_splits dest: elem_case\<close>)
  show ?thesis
    using assms(1) unfolding mergeChangedMapWithExtremeSize.simps[of rc key d c fm ex]
    by (auto split: if_splits val.splits simp: ne dest: map_case list_case)
qed

lemma getPath_Cons: "getPath x (k # p) = getPath (getPath x [k]) p"
  by (cases x) auto

lemma isMap_getPath_Cons: "isMap (getPath x (k # p)) \<Longrightarrow> \<exists>m. x = VMap m"
  by (cases x) (auto simp: isMap_def)

lemma mget_SomeD: "mget m k = v \<Longrightarrow> v \<noteq> VNil \<Longrightarrow> (k, v) \<in> set m"
  by (auto simp: mget_def split: option.splits dest: map_of_SomeD)

lemma distinct_fst_neq:
  "distinct (map fst m) \<Longrightarrow> (k, v) \<in> set m \<Longrightarrow> (k', v') \<in> set m \<Longrightarrow> (k', v') \<noteq> (k, v) \<Longrightarrow> k' \<noteq> k"
  by (auto dest: eq_key_imp_eq_value)

lemma mergeChangedMapWithExtremeSize_adopt_leaf:
  assumes "mergeChangedMapWithExtremeSize rc k VNil v inner ex = Inr inner'"
    and "\<not> isMap v" "\<not> isList v" "v \<noteq> VNil"
  shows "mget inner' k = v"
  using assms unfolding mergeChangedMapWithExtremeSize.simps[of rc k VNil v inner ex]
  by (cases v) (auto simp: isMap_def isList_def)

lemma mergeChangedMapWithExtremeSize_maps:
  assumes "mergeChangedMapWithExtremeSize rc key (VMap dm) (VMap cm) fm ex = Inr fm'"
    and "\<not> DeepEqual (VMap dm) (VMap cm)"
  shows "foldE (\<lambda>(newKey, cv) fm.
            atMap fm key (\<lambda>inner.
              mergeChangedMapWithExtremeSize rc newKey (mget dm newKey) cv inner ex)) cm fm = Inr fm'"
  using assms unfolding mergeChangedMapWithExtremeSize.simps[of rc key "VMap dm" "VMap cm" fm ex]
  by (simp del: DeepEqual.simps)

lemma mergeChangedMapWithExtremeSize_adopts:
  assumes "mergeChangedMapWithExtremeSize rc key d c fm ex = Inr fm'"
    and "mget fm key = d" and "wf d" and "wf c"
    and "isMap (getPath d ks)" and "isMap (getPath c ks)"
    and "getPath d (ks @ [k]) = VNil" and "getPath c (ks @ [k]) = v"
    and "\<not> isMap v" and "\<not> isList v" and "v \<noteq> VNil"
  shows "getPath (mget fm' key) (ks @ [k]) = v"
  using assms
proof (induction ks arbitrary: key d c fm fm')
  case Nil
  from Nil.prems(5,6) obtain dm cm where d: "d = VMap dm" and c: "c = VMap cm"
    by (cases d; cases c) (auto simp: isMap_def)
  from Nil.prems(7,8) d c have dk: "mget dm k = VNil" and ck: "mget cm k = v" by auto
  have nde: "\<not> DeepEqual (VMap dm) (VMap cm)"
  proof
    assume "DeepEqual (VMap dm) (VMap cm)"
    from DeepEqual_getPath[OF this _ _ Nil.prems(9,10,11), of "[k]"] Nil.prems(3) d ck dk Nil.prems(11)
    show False by simp
  qed
  have loop: "foldE (\<lambda>(newKey, cv) fm.
            atMap fm key (\<lambda>inner.
              mergeChangedMapWithExtremeSize rc newKey (mget dm newKey) cv inner ex)) cm fm = Inr fm'"
    using mergeChangedMapWithExtremeSize_maps[OF Nil.prems(1)[unfolded d c] nde] .
  from Nil.prems(4) c have dist: "distinct (map fst cm)" by simp
  then have dcm: "distinct cm" by (rule distinct_map[THEN iffD1, THEN conjunct1])
  from mget_SomeD[OF ck Nil.prems(11)] have mem: "(k, v) \<in> set cm" .
  let ?g = "\<lambda>t. getPath (mget t key) [k]"
  obtain t t' where t: "?g t = ?g fm"
    and step: "(case (k, v) of (newKey, cv) \<Rightarrow> \<lambda>fm.
            atMap fm key (\<lambda>inner.
              mergeChangedMapWithExtremeSize rc newKey (mget dm newKey) cv inner ex)) t = Inr t'"
    and fin: "?g fm' = ?g t'"
  proof (rule foldE_at[OF dcm mem loop, where g = ?g])
    fix y u u'
    assume y: "y \<in> set cm" "y \<noteq> (k, v)"
      and s: "(case y of (newKey, cv) \<Rightarrow> \<lambda>fm.
            atMap fm key (\<lambda>inner.
              mergeChangedMapWithExtremeSize rc newKey (mget dm newKey) cv inner ex)) u = Inr u'"
    obtain k' v' where y': "y = (k', v')" by (cases y)
    with y mem dist have ne: "k' \<noteq> k" by (auto dest: distinct_fst_neq)
    from s y' have "atMap u key (\<lambda>inner.
              mergeChangedMapWithExtremeSize rc k' (mget dm k') v' inner ex) = Inr u'" by simp
    moreover have "mget inner' k = mget inner k"
      if "mergeChangedMapWithExtremeSize rc k' (mget dm k') v' inner ex = Inr inner'"
      for inner inner'
      using mergeChangedMapWithExtremeSize_frame[OF that, of k] ne by simp
    ultimately show "?g u' = ?g u" by (rule atMap_frame_inner)
  qed blast
  from step have "atMap t key (\<lambda>inner.
              mergeChangedMapWithExtremeSize rc k VNil v inner ex) = Inr t'"
    using dk by simp
  then obtain inner inner' where "mergeChangedMapWithExtremeSize rc k VNil v inner ex = Inr inner'"
     and t': "mget t' key = VMap inner'" by (rule atMap_at_inner)
  from mergeChangedMapWithExtremeSize_adopt_leaf[OF this(1) Nil.prems(9,10,11)] t' fin
  show ?case by simp
next
  case (Cons k1 ks)
  from Cons.prems(5,6) obtain dm cm where d: "d = VMap dm" and c: "c = VMap cm"
    by (auto dest!: isMap_getPath_Cons)
  let ?d1 = "mget dm k1" and ?c1 = "mget cm k1"
  from Cons.prems d c have p1: "isMap (getPath ?d1 ks)" "isMap (getPath ?c1 ks)"
    "getPath ?d1 (ks @ [k]) = VNil" "getPath ?c1 (ks @ [k]) = v" by auto
  from p1(4) Cons.prems(11) have c1nn: "?c1 \<noteq> VNil" by auto
  have nde: "\<not> DeepEqual (VMap dm) (VMap cm)"
  proof
    assume "DeepEqual (VMap dm) (VMap cm)"
    from DeepEqual_getPath[OF this _ _ Cons.prems(9,10,11), of "k1 # ks @ [k]"] Cons.prems(3,7,8,11) d c
    show False by simp
  qed
  have loop: "foldE (\<lambda>(newKey, cv) fm.
            atMap fm key (\<lambda>inner.
              mergeChangedMapWithExtremeSize rc newKey (mget dm newKey) cv inner ex)) cm fm = Inr fm'"
    using mergeChangedMapWithExtremeSize_maps[OF Cons.prems(1)[unfolded d c] nde] .
  from Cons.prems(4) c have dist: "distinct (map fst cm)" by simp
  then have dcm: "distinct cm" by (rule distinct_map[THEN iffD1, THEN conjunct1])
  from mget_SomeD[OF refl c1nn] have mem: "(k1, ?c1) \<in> set cm" .
  let ?g = "\<lambda>t. getPath (mget t key) [k1]"
  obtain t t' where t: "?g t = ?g fm"
    and step: "(case (k1, ?c1) of (newKey, cv) \<Rightarrow> \<lambda>fm.
            atMap fm key (\<lambda>inner.
              mergeChangedMapWithExtremeSize rc newKey (mget dm newKey) cv inner ex)) t = Inr t'"
    and fin: "?g fm' = ?g t'"
  proof (rule foldE_at[OF dcm mem loop, where g = ?g])
    fix y u u'
    assume y: "y \<in> set cm" "y \<noteq> (k1, ?c1)"
      and s: "(case y of (newKey, cv) \<Rightarrow> \<lambda>fm.
            atMap fm key (\<lambda>inner.
              mergeChangedMapWithExtremeSize rc newKey (mget dm newKey) cv inner ex)) u = Inr u'"
    obtain k' v' where y': "y = (k', v')" by (cases y)
    with y mem dist have ne: "k' \<noteq> k1" by (auto dest: distinct_fst_neq)
    from s y' have "atMap u key (\<lambda>inner.
              mergeChangedMapWithExtremeSize rc k' (mget dm k') v' inner ex) = Inr u'" by simp
    moreover have "mget inner' k1 = mget inner k1"
      if "mergeChangedMapWithExtremeSize rc k' (mget dm k') v' inner ex = Inr inner'"
      for inner inner'
      using mergeChangedMapWithExtremeSize_frame[OF that, of k1] ne by simp
    ultimately show "?g u' = ?g u" by (rule atMap_frame_inner)
  qed blast
  from step have "atMap t key (\<lambda>inner.
              mergeChangedMapWithExtremeSize rc k1 ?d1 ?c1 inner ex) = Inr t'" by simp
  then obtain inner inner' where inner: "mget t key = VMap inner"
     and run: "mergeChangedMapWithExtremeSize rc k1 ?d1 ?c1 inner ex = Inr inner'"
     and t': "mget t' key = VMap inner'" by (rule atMap_at_inner)
  from t inner Cons.prems(2) d have i1: "mget inner k1 = ?d1" by simp
  have wfs: "wf ?d1" "wf ?c1" using Cons.prems(3,4) d c by (auto intro: wf_mget)
  from Cons.IH[OF run i1 wfs p1 Cons.prems(9,10,11)]
  have "getPath (mget inner' k1) (ks @ [k]) = v" .
  moreover have "getPath (mget fm' key) ((k1 # ks) @ [k]) = getPath (?g fm') (ks @ [k])"
    using getPath_Cons[of "mget fm' key" k1 "ks @ [k]"] by simp
  ultimately show ?case using fin t' by simp
qed

lemma mget_present: "mget m k \<noteq> VNil \<Longrightarrow> k \<in> set (map fst m)"
  using mget_absent[of k m] by auto

lemma update_keys_present: "k \<in> set (map fst m) \<Longrightarrow> map fst (AList.update k v m) = map fst m"
  by (simp add: update_keys)

lemma atMap_keys: "atMap t key f = Inr t' \<Longrightarrow> map fst t' = map fst t"
  by (auto simp: atMap_def split: val.splits sum.splits intro!: update_keys_present mget_present)

lemma atListMap_keys: "atListMap t key i f = Inr t' \<Longrightarrow> map fst t' = map fst t"
  by (auto simp: atListMap_def split: val.splits sum.splits if_splits
           intro!: update_keys_present mget_present)

lemma mergeChangedMapWithExtremeSize_keys:
  assumes "mergeChangedMapWithExtremeSize rc key d c fm ex = Inr fm'"
    and "key \<in> set (map fst fm)"
  shows "map fst fm' = map fst fm"
proof -
  have map_case: "map fst t' = map fst t"
    if "foldE (\<lambda>(newKey, cv) fm. atMap fm key (h newKey cv)) xs t = Inr t'"
    for xs t t' and h :: "string \<Rightarrow> val \<Rightarrow> gomap \<Rightarrow> error + gomap"
    by (rule foldE_frame[OF that]) (auto dest: atMap_keys)
  have elem_case: "map fst t' = map fst t"
    if "foldE (\<lambda>(newKey, cv) fm'. if i < n then
            (case ds ! i of VMap dim \<Rightarrow> atListMap fm' key i (h newKey cv dim) | _ \<Rightarrow> Inr fm')
            else Inl Panic) cim t = Inr t'"
    for ds i n cim t t' and h :: "string \<Rightarrow> val \<Rightarrow> gomap \<Rightarrow> gomap \<Rightarrow> error + gomap"
    by (rule foldE_frame[OF that])
       (auto split: val.splits if_splits dest: atListMap_keys)
  have list_case: "map fst t' = map fst t"
    if "foldE (\<lambda>(i, ci) fm. case ci of
            VMap cim \<Rightarrow> foldE (\<lambda>(newKey, cv) fm'. if i < n then
                (case ds ! i of VMap dim \<Rightarrow> atListMap fm' key i (h i newKey cv dim) | _ \<Rightarrow> Inr fm')
                else Inl Panic) cim fm
          | _ \<Rightarrow> Inl Panic) xs t = Inr t'"
    for ds n xs t t' and h :: "nat \<Rightarrow> string \<Rightarrow> val \<Rightarrow> gomap \<Rightarrow> gomap \<Rightarrow> error + gomap"
    by (rule foldE_frame[OF that])
       (auto split: val.splits if_splits dest: elem_case)
  have "map fst fm' = map fst fm \<or> (\<exists>v. fm' = AList.update key v fm)"
    using assms(1) unfolding mergeChangedMapWithExtremeSize.simps[of rc key d c fm ex]
    by (auto split: if_splits val.splits dest: map_case list_case)
  then show ?thesis using update_keys_present[OF assms(2)] by auto
qed

lemma shrinkSize_keys:
  assumes "shrinkSize rc D C ex = Inr M"
  shows "map fst M = map fst D"
proof (rule foldE_preserves[OF assms[unfolded shrinkSize_def], where P = "\<lambda>t. map fst t = map fst D"])
  fix key t t'
  assume "key \<in> set (map fst D)" "map fst t = map fst D"
    and "(if DeepEqual (mget t key) (mget C key) then Inr t
          else mergeChangedMapWithExtremeSize rc key (mget t key) (mget C key) t ex) = Inr t'"
  then show "map fst t' = map fst D"
    using mergeChangedMapWithExtremeSize_keys[of rc key "mget t key" "mget C key" t ex t']
    by (auto split: if_splits)
qed simp

lemma shrinkSize_adopts:
  assumes run: "shrinkSize rc D C ex = Inr M" and wfD: "wf (VMap D)" and wfC: "wf (VMap C)"
    and pd: "isMap (getPath (VMap D) (k0 # ks))" and pc: "isMap (getPath (VMap C) (k0 # ks))"
    and dn: "getPath (VMap D) (k0 # ks @ [k]) = VNil"
    and cv: "getPath (VMap C) (k0 # ks @ [k]) = v"
    and sc: "\<not> isMap v" "\<not> isList v" "v \<noteq> VNil"
  shows "getPath (VMap M) (k0 # ks @ [k]) = v"
proof -
  let ?d0 = "mget D k0" and ?c0 = "mget C k0"
  from pd have "?d0 \<noteq> VNil" by (auto simp: isMap_def)
  then have k0: "k0 \<in> set (map fst D)" by (rule mget_present)
  from wfD have dist: "distinct (map fst D)" by simp
  have loop: "foldE (\<lambda>key dm.
         if DeepEqual (mget dm key) (mget C key) then Inr dm
         else mergeChangedMapWithExtremeSize rc key (mget dm key) (mget C key) dm ex)
       (map fst D) D = Inr M" using run by (simp add: shrinkSize_def)
  obtain t t' where t: "mget t k0 = mget D k0"
    and step: "(if DeepEqual (mget t k0) (mget C k0) then Inr t
         else mergeChangedMapWithExtremeSize rc k0 (mget t k0) (mget C k0) t ex) = Inr t'"
    and fin: "mget M k0 = mget t' k0"
  proof (rule foldE_at[OF dist k0 loop, where g = "\<lambda>m. mget m k0"])
    fix y u u'
    assume "y \<noteq> k0" "(if DeepEqual (mget u y) (mget C y) then Inr u
         else mergeChangedMapWithExtremeSize rc y (mget u y) (mget C y) u ex) = Inr u'"
    then show "mget u' k0 = mget u k0"
      using mergeChangedMapWithExtremeSize_frame[of rc y _ _ u ex u' k0] by (auto split: if_splits)
  qed blast
  have wfs: "wf ?d0" "wf ?c0" using wfD wfC by (auto intro: wf_mget)
  have nde: "\<not> DeepEqual ?d0 ?c0"
  proof
    assume "DeepEqual ?d0 ?c0"
    from DeepEqual_getPath[OF this wfs(1) _ sc, of "ks @ [k]"] cv dn sc(3) show False by simp
  qed
  with step t have "mergeChangedMapWithExtremeSize rc k0 ?d0 ?c0 t ex = Inr t'" by simp
  from mergeChangedMapWithExtremeSize_adopts[OF this t wfs _ _ _ _ sc, of ks k] pd pc dn cv
  have "getPath (mget t' k0) (ks @ [k]) = v" by simp
  with fin show ?thesis by simp
qed

text \<open>
  Claim C4, as amended. \<open>shrinkSize\<close> walks the keys of the default and returns the default,
  updated in place: its result has exactly the top-level keys of the default, so a field
  that only \<open>changedMap\<close> has at the top level is not adopted. Below the top level, a
  field that is nil in the default and a non-nil scalar (neither map nor list) in
  \<open>changedMap\<close>, inside maps that both trees have along its path, is adopted with its
  changed value, whatever the extreme.
\<close>

theorem shrinkSize_adopts_nested_scalar:
  assumes "shrinkSize rc D C ex = Inr M" and "wf (VMap D)" and "wf (VMap C)"
  shows "map fst M = map fst D
       \<and> (isMap (getPath (VMap D) (k0 # ks)) \<and> isMap (getPath (VMap C) (k0 # ks))
            \<and> getPath (VMap D) (k0 # ks @ [k]) = VNil
            \<and> getPath (VMap C) (k0 # ks @ [k]) \<noteq> VNil
            \<and> \<not> isMap (getPath (VMap C) (k0 # ks @ [k]))
            \<and> \<not> isList (getPath (VMap C) (k0 # ks @ [k]))
          \<longrightarrow> getPath (VMap M) (k0 # ks @ [k]) = getPath (VMap C) (k0 # ks @ [k]))"
  using shrinkSize_keys[OF assms(1)] shrinkSize_adopts[OF assms, of k0 ks k]
  by blast

theorem shrinkSize_adopts_nested_scalar_witness:
  "shrinkSize ResourceComparison
     [(''x'', VNum 1), (''r'', VMap [(''limits'', VMap [(''cpu'', VStr ''1'')])])]
     [(''x'', VNum 1), (''a'', VNum 2),
      (''r'', VMap [(''limits'', VMap [(''cpu'', VStr ''500m''), (''memory'', VStr ''2'')])])]
     ExtremeMax
   = Inr [(''x'', VNum 1),
          (''r'', VMap [(''limits'', VMap [(''cpu'', VStr ''1''), (''memory'', VStr ''2'')])])]
   \<and> wf (VMap [(''x'', VNum 1), (''r'', VMap [(''limits'', VMap [(''cpu'', VStr ''1'')])])])
   \<and> wf (VMap [(''x'', VNum 1), (''a'', VNum 2),
      (''r'', VMap [(''limits'', VMap [(''cpu'', VStr ''500m''), (''memory'', VStr ''2'')])])])
   \<and> getPath (VMap [(''x'', VNum 1),
          (''r'', VMap [(''limits'', VMap [(''cpu'', VStr ''1''), (''memory'', VStr ''2'')])])])
         [''r'', ''limits'', ''memory''] = VStr ''2''
   \<and> getPath (VMap [(''x'', VNum 1), (''r'', VMap [(''limits'', VMap [(''cpu'', VStr ''1'')])])])
         [''r'', ''limits'', ''memory''] = VNil
   \<and> isMap (getPath (VMap [(''x'', VNum 1), (''r'', VMap [(''limits'', VMap [(''cpu'', VStr ''1'')])])])
         [''r'', ''limits''])"
  using shrinkSize_adopts_nested_scalar
    [of ResourceComparison
        "[(''x'', VNum 1), (''r'', VMap [(''limits'', VMap [(''cpu'', VStr ''1'')])])]"
        "[(''x'', VNum 1), (''a'', VNum 2),
          (''r'', VMap [(''limits'', VMap [(''cpu'', VStr ''500m''), (''memory'', VStr ''2'')])])]"
        ExtremeMax
        "[(''x'', VNum 1),
          (''r'', VMap [(''limits'', VMap [(''cpu'', VStr ''1''), (''memory'', VStr ''2'')])])]"
        "''r''" "[''limits'']" "''memory''"]
  by (simp add: shrinkSize_def mget_def atMap_def isMap_def isList_def ExtremeMax_def
        ResourceComparison_def quantity_def digit_def mergeChangedMapWithExtremeSize.simps)

text \<open>
  The claim as stated fails at the top level: \<open>a\<close> is a field of \<open>changedMap\<close> only, and
  neither extreme adopts it.
\<close>

theorem shrinkSize_top_level_not_adopted:
  "shrinkSize ResourceComparison [(''x'', VNum 1)] [(''x'', VNum 1), (''a'', VNum 2)] ExtremeMax
     = Inr [(''x'', VNum 1)]
   \<and> shrinkSize ResourceComparison [(''x'', VNum 1)] [(''x'', VNum 1), (''a'', VNum 2)] ExtremeMin
     = Inr [(''x'', VNum 1)]
   \<and> mget [(''x'', VNum 1), (''a'', VNum 2)] ''a'' = VNum 2
   \<and> mget [(''x'', VNum 1)] ''a'' = VNil"
  by (simp add: shrinkSize_def mget_def)

section \<open>Reset of managed fields\<close>

lemma mget_VMap_map_of: "mget fm key = VMap m \<Longrightarrow> map_of fm key = Some (VMap m)"
  by (auto simp: mget_def split: option.splits)

lemma foldE_atMap:
  "mget fm key = VMap m0 \<Longrightarrow>
   foldE (\<lambda>(a, b) fm. atMap fm key (f a b)) xs fm =
     (case foldE (\<lambda>(a, b) inner. f a b inner) xs m0 of
        Inl e \<Rightarrow> Inl e
      | Inr m1 \<Rightarrow> Inr (AList.update key (VMap m1) fm))"
proof (induction xs arbitrary: fm m0)
  case Nil
  then show ?case by (simp add: update_triv mget_VMap_map_of)
next
  case (Cons x xs)
  obtain a b where x: "x = (a, b)" by (cases x)
  show ?case
  proof (cases "f a b m0")
    case (Inl e)
    with Cons.prems x show ?thesis by (simp add: atMap_def)
  next
    case (Inr m')
    have "mget (AList.update key (VMap m') fm) key = VMap m'" by simp
    from Cons.IH[OF this] Inr Cons.prems x show ?thesis
      by (simp add: atMap_def split: sum.splits)
  qed
qed

lemma mget_append_mid: "k \<notin> set (map fst pre) \<Longrightarrow> mget (pre @ (k, v) # rest) k = v"
  by (induction pre) (auto simp: mget_def)

lemma update_append_mid:
  "k \<notin> set (map fst pre) \<Longrightarrow> AList.update k v' (pre @ (k, v) # rest) = pre @ (k, v') # rest"
  by (induction pre) auto

lemma delete_append_mid:
  "k \<notin> set (map fst pre) \<Longrightarrow> k \<notin> set (map fst rest) \<Longrightarrow>
   AList.delete k (pre @ (k, v) # rest) = pre @ rest"
  by (induction pre) (auto simp: delete_id)

lemma hasKey_requiredResetKeys:
  "hasKey requiredResetKeys k \<longleftrightarrow> k = ''replicas'' \<or> k = ''cpu'' \<or> k = ''memory''"
  by (auto simp: hasKey_def requiredResetKeys_def)

lemma resetFields_Cons: "resetFields R (e # rest) = resetFields R [e] @ resetFields R rest"
proof -
  obtain k v where "e = (k, v)" by (cases e)
  then show ?thesis by (cases v) auto
qed

lemma resetFields_keys: "set (map fst (resetFields R es)) \<subseteq> set (map fst es)"
proof (induction es)
  case Nil
  then show ?case by simp
next
  case (Cons e es)
  obtain k v where e: "e = (k, v)" by (cases e)
  show ?case using Cons.IH unfolding e by (cases v) auto
qed

lemma size_map_entry: "size (VMap m) < size (VMap ((k, VMap m) # rest))"
  by simp

lemma size_map_rest: "size (VMap rest) < size (VMap (e # rest))"
  by simp

lemma resetChangedMap_entry_aux:
  assumes nested: "\<And>r m. v = VMap m \<Longrightarrow> mget R k = VMap r \<Longrightarrow>
      foldE (\<lambda>(newKey, cv) inner. resetChangedMap newKey cv (Some r) inner) m m = Inr (resetFields r m)"
    and pre: "k \<notin> set (map fst pre)" and rest: "k \<notin> set (map fst rest)"
  shows "resetChangedMap k v (Some R) (pre @ (k, v) # rest) = Inr (pre @ resetFields R [(k, v)] @ rest)"
proof -
  note unf = resetChangedMap.simps[of k v "Some R" "pre @ (k, v) # rest"]
  show ?thesis
  proof (cases v)
    case (VMap m)
    show ?thesis
    proof (cases "mget R k")
      case r: (VMap r)
      have st: "mget (pre @ (k, VMap m) # rest) k = VMap m" using pre by (rule mget_append_mid)
      show ?thesis
        unfolding unf using nested[OF VMap r] pre
        by (simp add: Let_def VMap r foldE_atMap[OF st] update_append_mid)
    qed (unfold unf, simp_all add: VMap Let_def)
  qed (unfold unf, insert pre rest,
       simp_all add: Let_def hasKey_requiredResetKeys delete_append_mid del: AList.delete_simps)
qed

lemma resetChangedMap_entries:
  assumes "distinct (map fst es)" "set (map fst pre) \<inter> set (map fst es) = {}" "wf (VMap es)"
  shows "foldE (\<lambda>(newKey, cv) inner. resetChangedMap newKey cv (Some R) inner) es (pre @ es)
         = Inr (pre @ resetFields R es)"
  using assms
proof (induction es arbitrary: R pre rule: measure_induct_rule[where f = "\<lambda>es. size (VMap es)"])
  case (less es)
  show ?case
  proof (cases es)
    case Nil
    then show ?thesis by simp
  next
    case (Cons e rest)
    obtain k v where e: "e = (k, v)" by (cases e)
    from less.prems Cons e have kpre: "k \<notin> set (map fst pre)" and krest: "k \<notin> set (map fst rest)"
      and drest: "distinct (map fst rest)" and wfrest: "wf (VMap rest)" and wfv: "wf v"
      by auto
    have nested: "foldE (\<lambda>(newKey, cv) inner. resetChangedMap newKey cv (Some r) inner) m m
        = Inr (resetFields r m)" if "v = VMap m" for r m
    proof -
      have "size (VMap m) < size (VMap es)" unfolding Cons e that by simp
      from less.IH[OF this, of "[]" r] wfv that show ?thesis by simp
    qed
    have step: "resetChangedMap k v (Some R) (pre @ (k, v) # rest)
        = Inr (pre @ resetFields R [(k, v)] @ rest)"
      by (rule resetChangedMap_entry_aux[OF nested kpre krest])
    have disj: "set (map fst (pre @ resetFields R [(k, v)])) \<inter> set (map fst rest) = {}"
      using less.prems(1,2) resetFields_keys[of R "[(k, v)]"] unfolding Cons e by auto
    have "size (VMap rest) < size (VMap es)" unfolding Cons by simp
    from less.IH[OF this drest disj wfrest, of R]
    have "foldE (\<lambda>(newKey, cv) inner. resetChangedMap newKey cv (Some R) inner) rest
            ((pre @ resetFields R [(k, v)]) @ rest)
          = Inr ((pre @ resetFields R [(k, v)]) @ resetFields R rest)" .
    then show ?thesis unfolding Cons e
      using step resetFields_Cons[of R "(k, v)" rest] by simp
  qed
qed

lemma resetChangedMap_entry:
  assumes "wf v" "k \<notin> set (map fst pre)" "k \<notin> set (map fst rest)"
  shows "resetChangedMap k v (Some R) (pre @ (k, v) # rest) = Inr (pre @ resetFields R [(k, v)] @ rest)"
proof (rule resetChangedMap_entry_aux[OF _ assms(2,3)])
  fix r m assume "v = VMap m"
  with assms(1) resetChangedMap_entries[of m "[]" r]
  show "foldE (\<lambda>(newKey, cv) inner. resetChangedMap newKey cv (Some r) inner) m m = Inr (resetFields r m)"
    by simp
qed

lemma resetChangedMap_keys_loop:
  assumes "distinct (map fst es)" "set (map fst pre) \<inter> set (map fst es) = {}" "wf (VMap es)"
  shows "foldE (\<lambda>key cm. resetChangedMap key (mget cm key) (Some R) cm) (map fst es) (pre @ es)
         = Inr (pre @ resetFields R es)"
  using assms
proof (induction es arbitrary: pre)
  case Nil
  then show ?case by simp
next
  case (Cons e rest)
  obtain k v where e: "e = (k, v)" by (cases e)
  from Cons.prems e have kpre: "k \<notin> set (map fst pre)" and krest: "k \<notin> set (map fst rest)"
      and drest: "distinct (map fst rest)" and wfrest: "wf (VMap rest)" and wfv: "wf v"
      by auto
  have step: "resetChangedMap k (mget (pre @ (k, v) # rest) k) (Some R) (pre @ (k, v) # rest)
        = Inr (pre @ resetFields R [(k, v)] @ rest)"
    using resetChangedMap_entry[OF wfv kpre krest] mget_append_mid[OF kpre] by simp
  have disj: "set (map fst (pre @ resetFields R [(k, v)])) \<inter> set (map fst rest) = {}"
    using Cons.prems(1,2) resetFields_keys[of R "[(k, v)]"] unfolding e by auto
  from Cons.IH[OF drest disj wfrest] step resetFields_Cons[of R "(k, v)" rest]
  show ?case unfolding e by simp
qed

lemma resetChangedMap_no_rules: "resetChangedMap key v None cm = Inr cm"
  by (simp add: resetChangedMap.simps[of key v None cm])

lemma foldE_skip: "(\<And>x s. f x s = Inr s) \<Longrightarrow> foldE f xs s = Inr s"
  by (induction xs) auto

text \<open>
  Claim C7, as amended. \<open>resetResourceInTemplate\<close> deletes from the spec exactly the fields
  that are governed by the rules of the CR kind (the rules have a non-nil value at the
  field's path, reached through maps of the spec and of the rules), that are named
  \<open>replicas\<close>, \<open>cpu\<close> or \<open>memory\<close>, and whose value is not a map; every other field,
  \<open>profile\<close> and the fields the rules do not cover among them, stays as it is, in its
  place. A map under a governed key is never deleted, whatever its name: the reset goes on
  inside it when its rule is a map. Without rules for the CR kind nothing changes.
\<close>

theorem resetResourceInTemplate_resets:
  assumes "wf (VMap spec)"
  shows "resetResourceInTemplate spec cr rules =
     (case ruleForCR rules cr of
        Inl e \<Rightarrow> Inl e
      | Inr None \<Rightarrow> Inr spec
      | Inr (Some R) \<Rightarrow> Inr (resetFields R spec))"
proof (cases "ruleForCR rules cr")
  case (Inl e)
  then show ?thesis by (simp add: resetResourceInTemplate_def)
next
  case (Inr ro)
  show ?thesis
  proof (cases ro)
    case None
    with Inr show ?thesis
      by (simp add: resetResourceInTemplate_def resetChangedMap_no_rules foldE_skip)
  next
    case (Some R)
    from resetChangedMap_keys_loop[of spec "[]" R] assms Inr Some show ?thesis
      by (simp add: resetResourceInTemplate_def)
  qed
qed

theorem resetResourceInTemplate_resets_witness:
  "wf (VMap [(''replicas'', VNum 1), (''profile'', VStr ''small''),
        (''resources'', VMap [(''limits'', VMap [(''cpu'', VStr ''1''), (''memory'', VStr ''1''),
                                                 (''x'', VStr ''1'')]),
                              (''requests'', VMap [(''cpu'', VStr ''1'')])]),
        (''memory'', VStr ''1'')])
   \<and> resetResourceInTemplate
        [(''replicas'', VNum 1), (''profile'', VStr ''small''),
         (''resources'', VMap [(''limits'', VMap [(''cpu'', VStr ''1''), (''memory'', VStr ''1''),
                                                  (''x'', VStr ''1'')]),
                               (''requests'', VMap [(''cpu'', VStr ''1'')])]),
         (''memory'', VStr ''1'')]
        ''CR''
        (VMap [(''name'', VStr ''op''),
               (''spec'', VMap [(''CR'', VMap [(''replicas'', VStr ''LARGEST_VALUE''),
                  (''profile'', VStr ''LARGEST_VALUE''),
                  (''resources'', VMap [(''limits'', VMap [(''cpu'', VStr ''LARGEST_VALUE''),
                                                           (''memory'', VStr ''LARGEST_VALUE'')])])])])])
      = Inr [(''profile'', VStr ''small''),
             (''resources'', VMap [(''limits'', VMap [(''x'', VStr ''1'')]),
                                   (''requests'', VMap [(''cpu'', VStr ''1'')])]),
             (''memory'', VStr ''1'')]"
  using resetResourceInTemplate_resets
    [of "[(''replicas'', VNum 1), (''profile'', VStr ''small''),
         (''resources'', VMap [(''limits'', VMap [(''cpu'', VStr ''1''), (''memory'', VStr ''1''),
                                                  (''x'', VStr ''1'')]),
                               (''requests'', VMap [(''cpu'', VStr ''1'')])]),
         (''memory'', VStr ''1'')]"
        "''CR''"
        "VMap [(''name'', VStr ''op''),
               (''spec'', VMap [(''CR'', VMap [(''replicas'', VStr ''LARGEST_VALUE''),
                  (''profile'', VStr ''LARGEST_VALUE''),
                  (''resources'', VMap [(''limits'', VMap [(''cpu'', VStr ''LARGEST_VALUE''),
                                                           (''memory'', VStr ''LARGEST_VALUE'')])])])])]"]
  by (simp add: ruleForCR_def mget_def)

text \<open>
  The claim as stated fails for a map: \<open>cpu\<close> is governed by the rules and named \<open>cpu\<close>,
  and it is not deleted.
\<close>

theorem resetResourceInTemplate_keeps_map_field:
  "resetResourceInTemplate [(''cpu'', VMap [(''a'', VNum 1)])] ''CR''
     (VMap [(''spec'', VMap [(''CR'', VMap [(''cpu'', VMap [])])])])
   = Inr [(''cpu'', VMap [(''a'', VNum 1)])]
   \<and> ruleForCR (VMap [(''spec'', VMap [(''CR'', VMap [(''cpu'', VMap [])])])]) ''CR''
     = Inr (Some [(''cpu'', VMap [])])
   \<and> mget [(''cpu'', VMap [])] ''cpu'' \<noteq> VNil"
  by (simp add: resetResourceInTemplate_def ruleForCR_def mget_def atMap_def
        resetChangedMap.simps)

section \<open>Resource overrides\<close>

lemma bindE_simps [simp]: "bindE (Inl e) f = Inl e" "bindE (Inr a) f = f a"
  by (simp_all add: bindE_def)

lemma bindE_assoc: "bindE (bindE x f) g = bindE x (\<lambda>a. bindE (f a) g)"
  by (cases x) simp_all

lemma getItem_single_cases:
  "getItemByGVKNameNamespace [x] ns a k n nsp = Inr item \<Longrightarrow> item = VNil \<or> item = x"
  by (auto simp: bindE_def split: val.splits sum.splits if_splits)

lemma getItem_Cons:
  "getItemByGVKNameNamespace (x # rest) ns a k n nsp =
     bindE (getItemByGVKNameNamespace [x] ns a k n nsp) (\<lambda>item.
       if item \<noteq> VNil then Inr item else getItemByGVKNameNamespace rest ns a k n nsp)"
  by (auto simp: bindE_def split: val.splits sum.splits)

lemma getItem_single_map:
  "getItemByGVKNameNamespace [x] ns a k n nsp = Inr item \<Longrightarrow> item \<noteq> VNil \<Longrightarrow> isMap item"
  by (auto simp: bindE_def isMap_def split: val.splits sum.splits if_splits)

text \<open>The index found is the position of the item the lookup returns.\<close>

lemma indexByGVKNameNamespace_item:
  "getItemByGVKNameNamespace cs ns a k n nsp =
     bindE (indexByGVKNameNamespace cs ns a k n nsp) (\<lambda>found.
       Inr (case found of None \<Rightarrow> VNil | Some j \<Rightarrow> cs ! j))"
proof (induction cs)
  case Nil
  show ?case by simp
next
  case (Cons x rest)
  show ?case
  proof (cases "getItemByGVKNameNamespace [x] ns a k n nsp")
    case (Inl e)
    then show ?thesis unfolding getItem_Cons[of x rest] by simp
  next
    case (Inr item)
    from getItem_single_cases[OF Inr] show ?thesis
      unfolding getItem_Cons[of x rest] using Inr Cons.IH
      by (cases "indexByGVKNameNamespace rest ns a k n nsp")
         (auto split: option.splits)
  qed
qed

lemma indexByGVKNameNamespace_bound:
  "indexByGVKNameNamespace cs ns a k n nsp = Inr (Some j) \<Longrightarrow> j < length cs \<and> cs ! j \<noteq> VNil"
proof (induction cs arbitrary: j)
  case Nil
  then show ?case by simp
next
  case (Cons x rest)
  show ?case
  proof (cases "getItemByGVKNameNamespace [x] ns a k n nsp")
    case (Inl e)
    with Cons.prems show ?thesis by simp
  next
    case (Inr item)
    show ?thesis
    proof (cases "item = VNil")
      case True
      with Cons.prems Inr obtain j' where "indexByGVKNameNamespace rest ns a k n nsp = Inr (Some j')"
        "j = Suc j'"
        by (cases "indexByGVKNameNamespace rest ns a k n nsp") (auto split: option.splits)
      with Cons.IH[of j'] show ?thesis by simp
    next
      case False
      with Cons.prems Inr getItem_single_cases[OF Inr] show ?thesis by auto
    qed
  qed
qed

text \<open>A turn of the loop gives the entry that the turn taken alone gives.\<close>

lemma mergeResourceAt_entry:
  assumes "mergeResourceAt rc ns sc da cands opResource = Inr (cands', e, w)"
  shows "mergeResource rc ns sc cands da opResource = Inr (resolveEntry cands' e, w)"
proof -
  from assms obtain r where r: "opResource = VMap r"
    by (auto simp: mergeResourceAt_def split: val.splits)
  from assms r obtain a where a: "strField r ''apiVersion'' = Inr a"
    by (cases "strField r ''apiVersion''") (auto simp: mergeResourceAt_def)
  from assms r a obtain k where k: "strField r ''kind'' = Inr k"
    by (cases "strField r ''kind''") (auto simp: mergeResourceAt_def)
  from assms r a k obtain n where n: "strField r ''name'' = Inr n"
    by (cases "strField r ''name''") (auto simp: mergeResourceAt_def)
  from assms r a k n obtain nsp where nsp: "strField r ''namespace'' = Inr nsp"
    by (cases "strField r ''namespace''") (auto simp: mergeResourceAt_def)
  show ?thesis
  proof (cases "a = [] \<or> k = [] \<or> n = []")
    case True
    with assms r a k n nsp show ?thesis
      by (auto simp: mergeResourceAt_def mergeResource_def resolveEntry_def)
  next
    case complete: False
    show ?thesis
    proof (cases "cands = VNil")
      case True
      with assms r a k n nsp complete show ?thesis
        by (auto simp: mergeResourceAt_def mergeResource_def resolveEntry_def)
    next
      case False
      with assms r a k n nsp complete obtain cs where cs: "cands = VList cs"
        by (cases cands) (auto simp: mergeResourceAt_def)
      let ?nsp = "if nsp = [] then ns else nsp"
      from assms r a k n nsp complete cs obtain found where
        found: "indexByGVKNameNamespace cs ns a k n ?nsp = Inr found"
        by (cases "indexByGVKNameNamespace cs ns a k n ?nsp") (auto simp: mergeResourceAt_def)
      have item: "getItemByGVKNameNamespace cs ns a k n ?nsp
          = Inr (case found of None \<Rightarrow> VNil | Some j \<Rightarrow> cs ! j)"
        unfolding indexByGVKNameNamespace_item[of cs] found by simp
      show ?thesis
      proof (cases found)
        case None
        with assms r a k n nsp complete cs found item show ?thesis
          by (auto simp: mergeResourceAt_def mergeResource_def resolveEntry_def)
      next
        case (Some j)
        from indexByGVKNameNamespace_bound[OF found[unfolded Some]]
        have j: "j < length cs" "cs ! j \<noteq> VNil" by auto
        from assms r a k n nsp complete cs found Some obtain nr where
          nr: "resetNewResource sc (cs ! j) = Inr nr"
          by (cases "resetNewResource sc (cs ! j)") (auto simp: mergeResourceAt_def)
        from assms r a k n nsp complete cs found Some nr obtain m where m: "nr = VMap m"
          by (cases nr) (auto simp: mergeResourceAt_def)
        from assms r a k n nsp complete cs found Some nr m obtain merged where
          merged: "mergeCRsIntoOperandConfigWithDefaultRules rc r m da = Inr merged"
          by (cases "mergeCRsIntoOperandConfigWithDefaultRules rc r m da")
             (auto simp: mergeResourceAt_def)
        from assms r a k n nsp complete cs found Some nr m merged
        have res: "cands' = VList (cs[j := VMap merged])" "e = Override j" "w = []"
          by (auto simp: mergeResourceAt_def)
        show ?thesis
          using r a k n nsp complete cs item Some j nr m merged res False
          by (simp add: mergeResource_def resolveEntry_def)
      qed
    qed
  qed
qed










text \<open>
  A skipped entry stays in the sequence, and \<open>mergeCSCRs\<close> stores the sequence in the
  summary. There the entry is searched by the loop of the next tenant: when it has no
  \<open>kind\<close>, that lookup panics as soon as its \<open>apiVersion\<close> matches.
\<close>

lemma skipped_entry_in_summary:
  "mergeCSCRs_resources ResourceComparison ''ns'' ''default'' (VList [])
     [VMap [(''apiVersion'', VStr ''v1''), (''name'', VStr ''n'')]]
   = Inr ([VMap [(''apiVersion'', VStr ''v1''), (''name'', VStr ''n'')]], VList [],
          [SkipWarning ''v1'' [] ''n'' []])
   \<and> setResByName [VMap [(''name'', VStr ''op''), (''spec'', VMap []), (''resources'', VList [])]]
        ''op'' [VMap [(''apiVersion'', VStr ''v1''), (''name'', VStr ''n'')]]
   = Inr [VMap [(''name'', VStr ''op''), (''spec'', VMap []),
                (''resources'', VList [VMap [(''apiVersion'', VStr ''v1''), (''name'', VStr ''n'')]])]]
   \<and> mergeCSCRs_resources ResourceComparison ''ns'' ''default''
        (VList [VMap [(''apiVersion'', VStr ''v1''), (''name'', VStr ''n'')]])
        [VMap [(''apiVersion'', VStr ''v1''), (''kind'', VStr ''K''), (''name'', VStr ''m'')]]
   = Inl Panic"
  by (simp add: mergeCSCRs_resources_def strField_def asString_def mget_def hasKey_def
        resolveEntry_def mergeResourceAt_def)

text \<open>
  Two entries with one identity find the same override: both merges go into it and the
  loop stores the one object at both indices.
\<close>

lemma one_override_for_two_entries:
  "updateOperandConfig_resources ResourceComparison ''ns'' ''default''
     (VList [VMap [(''apiVersion'', VStr ''v1''), (''kind'', VStr ''K''), (''name'', VStr ''n'')]])
     [VMap [(''apiVersion'', VStr ''v1''), (''kind'', VStr ''K''), (''name'', VStr ''n''),
            (''a'', VNum 1)],
      VMap [(''apiVersion'', VStr ''v1''), (''kind'', VStr ''K''), (''name'', VStr ''n''),
            (''b'', VNum 2)]]
   = Inr ([VMap [(''apiVersion'', VStr ''v1''), (''kind'', VStr ''K''), (''name'', VStr ''n''),
                 (''a'', VNum 1), (''b'', VNum 2)],
           VMap [(''apiVersion'', VStr ''v1''), (''kind'', VStr ''K''), (''name'', VStr ''n''),
                 (''a'', VNum 1), (''b'', VNum 2)]],
          VList [VMap [(''apiVersion'', VStr ''v1''), (''kind'', VStr ''K''), (''name'', VStr ''n''),
                 (''a'', VNum 1), (''b'', VNum 2)]],
          [])"
  by (simp add: updateOperandConfig_resources_def strField_def asString_def mget_def hasKey_def resolveEntry_def
        mergeResourceAt_def resetNewResource_def nonDefaultProfileController_def
        mergeCRsIntoOperandConfigWithDefaultRules_def mergeChangedMap.simps comparableKeys_def)



section \<open>The unchanged flag\<close>









section \<open>Idempotence of the rule-filtered merge\<close>













subsection \<open>The pruning loop as a function\<close>

lemma filterFields_Nil [simp]: "filterFields R [] = []"
  by (simp add: filterFields_def List.map_filter_simps)

lemma filterFields_Cons [simp]:
  "filterFields R ((k, c) # rest) =
     (case filterVal (mget R k) c of
        None \<Rightarrow> filterFields R rest
      | Some v \<Rightarrow> (k, v) # filterFields R rest)"
  by (simp add: filterFields_def List.map_filter_simps split: option.splits)


lemma filterVal_other:
  "\<not> isMap c \<Longrightarrow> filterVal r c = (if r = VNil \<and> c \<noteq> VNil then None else Some c)"
  unfolding filterVal.simps[of r c] by (cases c) (auto simp: isMap_def)













subsection \<open>The merge loop as a function\<close>







subsection \<open>Merging the default into a pruned copy of a merge\<close>













lemma filterGet_nil [simp]: "filterGet r VNil = VNil"
  by (simp add: filterGet_def filterVal_other isMap_def)






lemma filterVal_nil [simp]: "filterVal r VNil = Some VNil"
  by (simp add: filterVal_other isMap_def)





subsection \<open>The loops compute the functions\<close>



















section \<open>Fields without a rule\<close>









lemma mapsAlong_nil [simp]: "mapsAlong d VNil ks"
  by (cases "(d, VNil, ks)" rule: mapsAlong.cases) auto






end
